theory Spec2Isabelle
  imports Complex_Main "HOL-Library.Product_Lexorder" "HOL-Library.Multiset" "HOL-Library.Sublist"
begin

section \<open>Numbers, points and the editor state\<close>

text \<open>
  The editor stores its waveform as a Python list of \<open>(time, value)\<close> tuples of
  floats. Times and values are modelled as \<^typ>\<open>real\<close>: every arithmetic operation
  is exact, so the rounding of IEEE doubles is outside the model. \<open>float('inf')\<close>,
  which the drag corridor uses for "no upper wall", is \<open>None\<close> of an option type.
  List indices are natural numbers; the guards \<open>0 <= i < len(self.points)\<close> of
  the source are kept as \<open>i < length\<close>.
\<close>

type_synonym point = "real \<times> real"

definition TIME_MIN_PRECISION :: real where
  "TIME_MIN_PRECISION = 1 / 10 ^ 12"

definition DEFAULT_DRAG_PRECISION :: real where
  "DEFAULT_DRAG_PRECISION = 1 / 10 ^ 3"

datatype error = NegativeTime | TimeConflict | InvalidFormat | NoSelection | IndexNotFound

record editor =
  points :: "point list"
  selected_indices :: "nat set"
  primary_selected_index :: "nat option"
  dragging_indices :: "nat list"
  drag_start :: "point option"
  drag_original_data :: "nat \<Rightarrow> point option"
  drag_precision :: real
  placement_mode :: bool
  placement_data :: "point list"

text \<open>
  \<open>list.index(x)\<close>: the first position holding a value equal to \<open>x\<close>;
  \<open>None\<close> stands for the \<open>ValueError\<close> Python raises when there is none.
\<close>

fun py_index_from :: "nat \<Rightarrow> 'a list \<Rightarrow> 'a \<Rightarrow> nat option" where
  "py_index_from i [] x = None"
| "py_index_from i (y # ys) x = (if y = x then Some i else py_index_from (Suc i) ys x)"

definition py_index :: "'a list \<Rightarrow> 'a \<Rightarrow> nat option" where
  "py_index xs x = py_index_from 0 xs x"

section \<open>Waveform store and constraint engine\<close>

subsection \<open>\<open>_check_time_conflict\<close>\<close>

fun check_conflict_loop :: "nat \<Rightarrow> point list \<Rightarrow> real \<Rightarrow> nat option \<Rightarrow> bool" where
  "check_conflict_loop i [] new_time exclude_index = False"
| "check_conflict_loop i ((t, v) # pts) new_time exclude_index =
     (if exclude_index = Some i then check_conflict_loop (Suc i) pts new_time exclude_index
      else if \<bar>t - new_time\<bar> < TIME_MIN_PRECISION * 2 then True
      else check_conflict_loop (Suc i) pts new_time exclude_index)"

definition check_time_conflict :: "point list \<Rightarrow> real \<Rightarrow> nat option \<Rightarrow> bool" where
  "check_time_conflict pts new_time exclude_index =
     check_conflict_loop 0 pts new_time exclude_index"

subsection \<open>\<open>_ensure_min_spacing\<close>\<close>

text \<open>
  \<open>sorted(points, key=lambda x: x[0])\<close> is a stable sort on the time alone, which is
  \<^term>\<open>sort_key fst\<close>. The loop variable \<open>prev_t\<close> starts as \<open>None\<close>. Times are
  exact reals, so \<open>prev_t + self.TIME_MIN_PRECISION\<close> is the exact sum here. The
  program rounds the sum to a double, and from \<open>prev_t = 16384\<close> upwards the rounded
  sum is \<open>prev_t\<close> itself: there the program returns equal times where this model
  returns times \<open>1e-12\<close> apart. The size of the gaps in the model's output is
  therefore not a statement about the program. What holds for both is that the
  output is in time order and that a second pass leaves it unchanged.
\<close>

fun spacing_loop :: "real option \<Rightarrow> point list \<Rightarrow> point list" where
  "spacing_loop prev_t [] = []"
| "spacing_loop None ((t, v) # pts) =
     (let t' = max 0 t in (t', v) # spacing_loop (Some t') pts)"
| "spacing_loop (Some p) ((t, v) # pts) =
     (let t' = (if t < p + TIME_MIN_PRECISION then p + TIME_MIN_PRECISION else t)
      in (t', v) # spacing_loop (Some t') pts)"

definition ensure_min_spacing :: "point list \<Rightarrow> point list" where
  "ensure_min_spacing pts =
     (if pts = [] then [] else spacing_loop None (sort_key fst pts))"

subsection \<open>\<open>add_point\<close>, \<open>quick_add_point\<close>, \<open>update_point\<close>, \<open>delete_point\<close>\<close>

text \<open>
  \<open>add_point\<close> and \<open>update_point\<close> read two entry fields and parse them; the
  model starts after the parse, with the parsed \<open>time\<close> and \<open>value\<close>. A handler
  that shows a message box and returns without touching the state is \<open>Inl\<close> of the
  error; \<open>Inr\<close> carries the new state. \<open>self.points.sort()\<close> sorts the tuples
  lexicographically, which is \<^const>\<open>sort\<close> on pairs. The \<open>ValueError\<close> of
  \<open>list.index\<close> is caught by the same \<open>except ValueError\<close> as a parse failure in
  \<open>add_point\<close> and \<open>update_point\<close>, and is not caught in \<open>quick_add_point\<close>; it
  is never raised there, since the point looked up has just been stored
  (\<open>py_index_mem\<close>).
\<close>

definition add_point :: "real \<Rightarrow> real \<Rightarrow> editor \<Rightarrow> error + editor" where
  "add_point time val ed =
     (if time < 0 then Inl NegativeTime
      else if check_time_conflict (points ed) time None then Inl TimeConflict
      else
        let pts = sort (points ed @ [(time, val)]) in
        (case py_index pts (time, val) of
           None \<Rightarrow> Inl InvalidFormat
         | Some idx \<Rightarrow>
             Inr (ed\<lparr>points := pts, primary_selected_index := Some idx,
                     selected_indices := {idx}\<rparr>)))"

definition quick_add_point :: "editor \<Rightarrow> error + editor" where
  "quick_add_point ed =
     (let (time, val) =
            (if points ed = [] then (0, 0)
             else (fst (last (points ed)) + 1 / 10 ^ 3, 0));
          pts = sort (points ed @ [(time, val)])
      in (case py_index pts (time, val) of
            None \<Rightarrow> Inl IndexNotFound
          | Some idx \<Rightarrow>
              Inr (ed\<lparr>points := pts, primary_selected_index := Some idx,
                      selected_indices := {idx}\<rparr>)))"

text \<open>
  \<open>update_point\<close> returns silently (state unchanged) when the primary index is out
  of range.
\<close>

definition update_point :: "real \<Rightarrow> real \<Rightarrow> editor \<Rightarrow> error + editor" where
  "update_point new_time new_value ed =
     (case primary_selected_index ed of
        None \<Rightarrow> Inl NoSelection
      | Some index \<Rightarrow>
          if new_time < 0 then Inl NegativeTime
          else if \<not> index < length (points ed) then Inr ed
          else
            let old_time = fst (points ed ! index) in
            if new_time \<noteq> old_time \<and> check_time_conflict (points ed) new_time (Some index)
            then Inl TimeConflict
            else
              let pts = sort ((points ed)[index := (new_time, new_value)]) in
              (case py_index pts (new_time, new_value) of
                 None \<Rightarrow> Inl InvalidFormat
               | Some new_idx \<Rightarrow>
                   Inr (ed\<lparr>points := pts, primary_selected_index := Some new_idx,
                           selected_indices := {new_idx}\<rparr>)))"

text \<open>
  \<open>del self.points[index]\<close>, and the loop of \<open>delete_point\<close> over the selected
  indices in descending order. With an empty selection the source falls back on the
  rows selected in the table widget, the parameter \<open>tree_selection\<close>.
\<close>

definition delete_at :: "nat \<Rightarrow> 'a list \<Rightarrow> 'a list" where
  "delete_at i xs = take i xs @ drop (Suc i) xs"

definition delete_indices :: "nat list \<Rightarrow> point list \<Rightarrow> point list" where
  "delete_indices indices pts =
     fold (\<lambda>index ps. if index < length ps then delete_at index ps else ps) indices pts"

definition delete_point :: "nat set \<Rightarrow> editor \<Rightarrow> error + editor" where
  "delete_point tree_selection ed =
     (if selected_indices ed = {} \<and> tree_selection = {} then Inl NoSelection
      else
        let sel = (if selected_indices ed = {} then tree_selection else selected_indices ed)
        in Inr (ed\<lparr>points := delete_indices (rev (sorted_list_of_set sel)) (points ed),
                   selected_indices := {}, primary_selected_index := None\<rparr>))"

subsection \<open>Placement commit\<close>

text \<open>
  \<open>list(self.selected_indices)[-1]\<close> is the last element in the iteration order of a
  Python set, which depends on the layout of its hash table; the handlers that use it
  take it as the parameter \<open>set_last\<close>.
\<close>

definition cancel_placement :: "editor \<Rightarrow> editor" where
  "cancel_placement ed =
     (if placement_mode ed then ed\<lparr>placement_mode := False, placement_data := []\<rparr> else ed)"

definition handle_placement_commit :: "(nat set \<Rightarrow> nat) \<Rightarrow> real \<Rightarrow> editor \<Rightarrow> editor" where
  "handle_placement_commit set_last x ed =
     (if placement_data ed = [] then cancel_placement ed
      else
        let start_time = max 0 x;
            new_points = map (\<lambda>(t, v). (start_time + t, v)) (placement_data ed);
            pts = sort (points ed @ new_points);
            sel = set (List.map_filter (py_index pts) new_points);
            primary = (if sel \<noteq> {} then Some (set_last sel) else primary_selected_index ed)
        in cancel_placement
             (ed\<lparr>points := pts, selected_indices := sel, primary_selected_index := primary\<rparr>))"

subsection \<open>Drag: motion, release and \<open>_enforce_min_dt_for_drag\<close>\<close>

text \<open>
  Python's \<open>round(x)\<close> on a float: the nearest integer, a tie going to the even one.
\<close>

definition py_round :: "real \<Rightarrow> int" where
  "py_round x =
     (let f = \<lfloor>x\<rfloor>; d = x - of_int f
      in if d < 1 / 2 then f else if 1 / 2 < d then f + 1
         else if even f then f else f + 1)"

text \<open>\<open>bisect.bisect_left(a, x)\<close>, the binary search of the standard library.\<close>

function bisect_left_loop :: "real list \<Rightarrow> real \<Rightarrow> nat \<Rightarrow> nat \<Rightarrow> nat" where
  "bisect_left_loop a x lo hi =
     (if lo < hi then
        (let mid = (lo + hi) div 2
         in if a ! mid < x then bisect_left_loop a x (mid + 1) hi
            else bisect_left_loop a x lo mid)
      else lo)"
  by pat_completeness auto
termination
  by (relation "measure (\<lambda>(a, x, lo, hi). hi - lo)") auto

declare bisect_left_loop.simps [simp del]

definition bisect_left :: "real list \<Rightarrow> real \<Rightarrow> nat" where
  "bisect_left a x = bisect_left_loop a x 0 (length a)"

text \<open>
  Mouse motion while dragging writes \<open>snapshot + delta\<close> into the store, the time
  floored at 0, with no sort and no spacing check. \<open>(wx, wy)\<close> is the cursor in
  world coordinates.
\<close>

definition drag_motion :: "real \<Rightarrow> real \<Rightarrow> editor \<Rightarrow> editor" where
  "drag_motion wx wy ed =
     (case drag_start ed of
        None \<Rightarrow> ed
      | Some (sx, sy) \<Rightarrow>
          let dx = wx - sx; dy = wy - sy
          in ed\<lparr>points :=
               fold (\<lambda>i pts.
                      case drag_original_data ed i of
                        None \<Rightarrow> pts
                      | Some (orig_t, orig_v) \<Rightarrow>
                          if i < length pts then pts[i := (max 0 (orig_t + dx), orig_v + dy)]
                          else pts)
                    (dragging_indices ed) (points ed)\<rparr>)"

text \<open>
  One entry \<open>[i, t, v, low, high]\<close> per dragged index in range: the corridor between
  the neighbouring points that are not dragged. \<open>high = None\<close> is \<open>float('inf')\<close>.
\<close>

type_synonym drag_entry = "nat \<times> real \<times> real \<times> real \<times> real option"

definition drag_entry_of :: "real list \<Rightarrow> point list \<Rightarrow> nat \<Rightarrow> drag_entry" where
  "drag_entry_of non_times pts i =
     (let (t, v) = pts ! i;
          pos = bisect_left non_times t;
          prev_time = (if 1 \<le> pos then Some (non_times ! (pos - 1)) else None);
          next_time = (if pos < length non_times then Some (non_times ! pos) else None);
          low = max 0 (case prev_time of Some p \<Rightarrow> p + TIME_MIN_PRECISION | None \<Rightarrow> 0);
          high = (case next_time of Some n \<Rightarrow> Some (n - TIME_MIN_PRECISION) | None \<Rightarrow> None)
      in (i, t, v, low, high))"

fun adjust_loop :: "real option \<Rightarrow> drag_entry list \<Rightarrow> point list \<Rightarrow> point list" where
  "adjust_loop prev_adj [] pts = pts"
| "adjust_loop prev_adj ((i, t, v, low, high) # entries) pts =
     (let t_adj = max t low;
          t_adj = (case prev_adj of Some p \<Rightarrow> max t_adj (p + TIME_MIN_PRECISION)
                   | None \<Rightarrow> t_adj);
          t_adj =
            (if (case high of Some h \<Rightarrow> h < t_adj | None \<Rightarrow> False) then
               (let t_hi = (case high of Some h \<Rightarrow> h | None \<Rightarrow> t_adj)
                in case prev_adj of
                     Some p \<Rightarrow> if t_hi < p + TIME_MIN_PRECISION then p + TIME_MIN_PRECISION
                               else t_hi
                   | None \<Rightarrow> t_hi)
             else t_adj);
          t_adj = (if t_adj < 0 then 0 else t_adj)
      in adjust_loop (Some t_adj) entries (pts[i := (t_adj, v)]))"

definition enforce_min_dt_for_drag :: "nat list \<Rightarrow> point list \<Rightarrow> point list" where
  "enforce_min_dt_for_drag dragged pts =
     (if dragged = [] then pts
      else
        let non_drag = sort_key fst
              (map snd (filter (\<lambda>(i, p). i \<notin> set dragged) (enumerate 0 pts)));
            non_times = map fst non_drag;
            entries = map (drag_entry_of non_times pts) (filter (\<lambda>i. i < length pts) dragged)
        in adjust_loop None (sort_key (\<lambda>(i, t, v, low, high). t) entries) pts)"

text \<open>
  The "Handle Drag Release" block of \<open>_on_mouse_release\<close>: quantise each dragged
  point, enforce the corridors, sort, and find the dragged points again by value.
\<close>

definition quantize_dragged :: "real \<Rightarrow> nat list \<Rightarrow> point list \<Rightarrow> point list" where
  "quantize_dragged precision dragged pts =
     fold (\<lambda>i ps.
            if i < length ps then
              (let (time, val) = ps ! i;
                   time = of_int (py_round (time / TIME_MIN_PRECISION)) * TIME_MIN_PRECISION;
                   time = max 0 time;
                   val = of_int (py_round (val / precision)) * precision
               in ps[i := (time, val)])
            else ps)
          dragged pts"

definition drag_release :: "(nat set \<Rightarrow> nat) \<Rightarrow> editor \<Rightarrow> editor" where
  "drag_release set_last ed =
     (if dragging_indices ed = [] then ed
      else
        let dragged = dragging_indices ed;
            pts = quantize_dragged (drag_precision ed) dragged (points ed);
            pts = enforce_min_dt_for_drag dragged pts;
            dragged_values = map (\<lambda>i. pts ! i) (filter (\<lambda>i. i < length pts) dragged);
            pts = sort pts;
            sel = set (List.map_filter (py_index pts) dragged_values)
        in ed\<lparr>points := pts, selected_indices := sel,
               primary_selected_index := (if sel \<noteq> {} then Some (set_last sel) else None),
               dragging_indices := [], drag_start := None,
               drag_original_data := (\<lambda>i. None)\<rparr>)"

subsection \<open>The spacing invariant\<close>

text \<open>
  \<open>spaced_after p pts\<close>: the first time of \<open>pts\<close> is at least one
  \<open>TIME_MIN_PRECISION\<close> after \<open>p\<close>, and so is every time after its predecessor.
  \<open>spacing_invariant\<close> adds that the first time is not negative.
\<close>

fun spaced_after :: "real \<Rightarrow> point list \<Rightarrow> bool" where
  "spaced_after p [] = True"
| "spaced_after p ((t, v) # pts) = (TIME_MIN_PRECISION \<le> t - p \<and> spaced_after t pts)"

fun spacing_invariant :: "point list \<Rightarrow> bool" where
  "spacing_invariant [] = True"
| "spacing_invariant ((t, v) # pts) = (0 \<le> t \<and> spaced_after t pts)"

subsection \<open>Example states\<close>

text \<open>
  An idle editor holding the given points, as \<open>_init_data\<close> leaves every other field.
\<close>

definition idle_editor :: "point list \<Rightarrow> editor" where
  "idle_editor pts =
     \<lparr>points = pts, selected_indices = {}, primary_selected_index = None,
      dragging_indices = [], drag_start = None, drag_original_data = (\<lambda>i. None),
      drag_precision = DEFAULT_DRAG_PRECISION, placement_mode = False, placement_data = []\<rparr>"

text \<open>
  The drag session of the test \<open>test_drag_min_dt_applied_on_release\<close>: two points,
  the first one pressed at its own position, so that it is selected and dragged.
\<close>

definition drag_example :: editor where
  "drag_example =
     (idle_editor [(0, 0), (2 / 10 ^ 12, 0)])
       \<lparr>selected_indices := {0}, primary_selected_index := Some 0,
        dragging_indices := [0], drag_start := Some (0, 0),
        drag_original_data := [0 \<mapsto> (0, 0)]\<rparr>"

subsection \<open>Spacing as a relation between points\<close>

definition gap :: "point \<Rightarrow> point \<Rightarrow> bool" where
  "gap a b \<longleftrightarrow> TIME_MIN_PRECISION \<le> fst b - fst a"

section \<open>Viewport and render pipeline\<close>

subsection \<open>The canvas and \<open>world_to_screen\<close>\<close>

text \<open>
  The fields of \<open>PWLGraphCanvas\<close> that the modelled code reads: the world bounds, the
  widget size in pixels that Tk reports (\<open>winfo_width\<close>, \<open>winfo_height\<close>), and the
  two preview limits that \<open>__init__\<close> sets to 2 and 3000. The margins are the
  constants of \<open>__init__\<close>.
\<close>

record canvas =
  x_min :: real
  x_max :: real
  y_min :: real
  y_max :: real
  winfo_width :: int
  winfo_height :: int
  lod_pixel_step :: int
  max_preview_points :: nat

definition margin_left :: int where "margin_left = 60"
definition margin_right :: int where "margin_right = 20"
definition margin_top :: int where "margin_top = 20"
definition margin_bottom :: int where "margin_bottom = 30"

definition world_to_screen :: "canvas \<Rightarrow> real \<Rightarrow> real \<Rightarrow> real \<times> real" where
  "world_to_screen c x y =
     (let w = winfo_width c; h = winfo_height c;
          draw_w = w - margin_left - margin_right;
          draw_h = h - margin_top - margin_bottom
      in if draw_w \<le> 0 \<or> draw_h \<le> 0 then (0, 0)
         else
           let x_range = x_max c - x_min c;
               y_range = y_max c - y_min c;
               x_range = (if x_range = 0 then 1 / 10 ^ 9 else x_range);
               y_range = (if y_range = 0 then 1 / 10 ^ 9 else y_range);
               sx = of_int margin_left + (x - x_min c) / x_range * of_int draw_w;
               sy = of_int margin_top + of_int draw_h - (y - y_min c) / y_range * of_int draw_h
           in (sx, sy))"

subsection \<open>Placement-preview decimation\<close>

text \<open>
  The decimation loop that \<open>redraw\<close> and \<open>update_cursor_only\<close> both contain. The
  \<open>break\<close> is the test on the length after the point has been appended.
\<close>

fun decimate_loop :: "canvas \<Rightarrow> point list \<Rightarrow> point list \<Rightarrow> real option \<Rightarrow> point list" where
  "decimate_loop c [] decimated last_sx = decimated"
| "decimate_loop c ((t, v) # line) decimated last_sx =
     (let (sx, sy) = world_to_screen c t v;
          keep = (case last_sx of None \<Rightarrow> True
                  | Some l \<Rightarrow> of_int (max 1 (lod_pixel_step c)) \<le> \<bar>sx - l\<bar>);
          decimated = (if keep then decimated @ [(t, v)] else decimated);
          last_sx = (if keep then Some sx else last_sx)
      in if max_preview_points c < length decimated then decimated
         else decimate_loop c line decimated last_sx)"

definition decimate_preview :: "canvas \<Rightarrow> point list \<Rightarrow> point list" where
  "decimate_preview c line = decimate_loop c line [] None"

text \<open>
  The screen X of a point, and the relation "at least one pixel step apart on screen"
  between two points.
\<close>

definition screen_x :: "canvas \<Rightarrow> point \<Rightarrow> real" where
  "screen_x c p = fst (world_to_screen c (fst p) (snd p))"

definition far :: "canvas \<Rightarrow> point \<Rightarrow> point \<Rightarrow> bool" where
  "far c p q \<longleftrightarrow> of_int (max 1 (lod_pixel_step c)) \<le> \<bar>screen_x c q - screen_x c p\<bar>"

subsection \<open>\<open>zoom_to_all_points\<close> and \<open>_enforce_negative_axis_limit\<close>\<close>

text \<open>
  \<open>_enforce_negative_axis_limit\<close> works on the locals \<open>x_min\<close>, \<open>x_max\<close>, \<open>rng\<close> and
  on the canvas fields; the model threads both. \<open>fit_range\<close> is the expression
  \<open>hi - lo if hi > lo else max(abs(hi), 1.0)\<close> that \<open>zoom_to_all_points\<close> uses for
  both axes. \<open>negative_fraction\<close> is the quantity the test
  \<open>test_negative_axis_limit_on_fit\<close> computes.
\<close>

definition enforce_negative_axis_limit :: "canvas \<Rightarrow> canvas" where
  "enforce_negative_axis_limit c =
     (let xmin = x_min c; xmax = x_max c; rng = xmax - xmin;
          (rng, xmax) = (if rng \<le> 0 then (1 / 10 ^ 12, xmin + 1 / 10 ^ 12) else (rng, xmax));
          (c, xmin, xmax, rng) =
            (if xmax \<le> 1 / 10 ^ 15 then
               (let xmax = 1 / 10 ^ 15;
                    c = c\<lparr>x_max := xmax\<rparr>;
                    c = c\<lparr>x_min := xmax - rng\<rparr>;
                    xmin = x_min c;
                    rng = xmax - xmin;
                    (c, rng) = (if rng \<le> 0 then (c\<lparr>x_min := xmax - 1 / 10 ^ 12\<rparr>, 1 / 10 ^ 12)
                                else (c, rng))
                in (c, xmin, xmax, rng))
             else (c, xmin, xmax, rng))
      in if xmin < 0 \<and> 0 < xmax then
           (let limit_min = - ((5 / 100) / (95 / 100)) * xmax
            in if xmin < limit_min then c\<lparr>x_min := limit_min\<rparr> else c)
         else c)"

definition fit_range :: "real \<Rightarrow> real \<Rightarrow> real" where
  "fit_range lo hi = (if lo < hi then hi - lo else max \<bar>hi\<bar> 1)"

definition zoom_to_all_points :: "point list \<Rightarrow> canvas \<Rightarrow> canvas" where
  "zoom_to_all_points pts c =
     (if pts = [] then c
      else
        let times = map fst pts; vals = map snd pts;
            all_x = times @ [0];
            xmin = Min (set all_x); xmax = Max (set all_x);
            ymin = Min (set vals); ymax = Max (set vals);
            x_range = fit_range xmin xmax;
            y_range = fit_range ymin ymax;
            x_padding = x_range * (5 / 100);
            y_padding = y_range * (1 / 10)
        in enforce_negative_axis_limit
             (c\<lparr>x_min := xmin - x_padding, x_max := xmax + x_padding,
                y_min := ymin - y_padding, y_max := ymax + y_padding\<rparr>))"



text \<open>
  A 1080 by 550 pixel canvas showing times 0 to 1, and a preview line of 4000 points
  that are 2 pixels apart on it.
\<close>

definition example_canvas :: canvas where
  "example_canvas = \<lparr>x_min = 0, x_max = 1, y_min = - 1, y_max = 1,
     winfo_width = 1080, winfo_height = 550, lod_pixel_step = 2, max_preview_points = 3000\<rparr>"

definition dense_line :: "point list" where
  "dense_line = map (\<lambda>i. (real i / 500, 0)) [0..<4000]"

section \<open>Waveform file load\<close>

text \<open>
  \<open>_load_waveform_from_file\<close>, from the point where \<open>json.load\<close> has returned
  \<open>data\<close>. \<open>data\<close> is any JSON value: a dict (its items, keys distinct), a list, a
  string, a number, a boolean or \<open>null\<close>. \<open>json.load\<close> gives a Python \<open>int\<close> for a
  number written without fraction or exponent (\<open>JInt\<close>, unbounded) and a \<open>float\<close>
  otherwise (\<open>JFloat\<close>, a finite double taken as the real it denotes; the literals
  \<open>NaN\<close> and \<open>Infinity\<close>, and a literal too large for a double, have no counterpart
  here). Nothing checks the shape of the entries, so the store can come to hold
  tuples that are not pairs of numbers: for this handler the store is a list of
  tuples of JSON values. The failures are Python exceptions, all caught by the
  handler's \<open>except Exception\<close>, which shows a message:
  \<^item> \<open>MissingField\<close>: the \<open>ValueError\<close> the handler raises itself when
    \<open>"points" not in data\<close>;
  \<^item> \<open>NotIterable\<close>: the \<open>TypeError\<close> of \<open>in\<close>, of the list comprehension or of
    \<open>tuple(p)\<close> on a number, a boolean or \<open>null\<close>;
  \<^item> \<open>NotSubscriptable\<close>: the \<open>TypeError\<close> of \<open>data["points"]\<close> on a list or a
    string;
  \<^item> \<open>BadPoint\<close>: an exception raised after \<open>self.points\<close> has been assigned.
    In \<open>_update_table\<close>, the first step of \<open>_refresh_all\<close>: the \<open>ValueError\<close> of
    unpacking \<open>time, value\<close> from a tuple that is not a pair, the \<open>TypeError\<close> of
    \<open>abs\<close> on a value that is not a number, or the \<open>OverflowError\<close> of
    \<open>value / exp\<close> in \<open>engineering_format\<close> on an \<open>int\<close> that no double can hold.
    In \<open>zoom_to_all_points\<close>: the \<open>OverflowError\<close> of \<open>x_range * 0.05\<close> or
    \<open>y_range * 0.1\<close> when the range is the difference of two \<open>int\<close>s and no double
    can hold it; it is raised before the viewport is assigned, whether
    \<open>zoom_to_all_points\<close> is called by the handler or, on the first load, by
    \<open>_update_plot\<close>.
  With pairs of numbers that pass both, the refresh goes through and
  \<open>zoom_to_all_points\<close> fits the view. What the drawing code does with doubles that
  overflow or that absorb a small step is outside this model, where arithmetic on
  floats is exact.
\<close>

datatype json =
  JNull | JBool bool | JInt int | JFloat real | JStr string | JArr "json list"
  | JObj "(string \<times> json) list"

datatype load_error = MissingField | NotIterable | NotSubscriptable | BadPoint

record load_state =
  raw_points :: "json list list"
  view :: canvas

text \<open>\<open>"points" in data\<close>, \<open>data["points"]\<close>, and iteration over a JSON value.\<close>

fun contains_points :: "json \<Rightarrow> bool option" where
  "contains_points (JObj items) = Some (map_of items ''points'' \<noteq> None)"
| "contains_points (JArr xs) = Some (JStr ''points'' \<in> set xs)"
| "contains_points (JStr s) = Some (sublist ''points'' s)"
| "contains_points _ = None"

fun get_points :: "json \<Rightarrow> json option" where
  "get_points (JObj items) = map_of items ''points''"
| "get_points _ = None"

fun py_iter :: "json \<Rightarrow> json list option" where
  "py_iter (JArr xs) = Some xs"
| "py_iter (JStr s) = Some (map (\<lambda>ch. JStr [ch]) s)"
| "py_iter (JObj items) = Some (map (\<lambda>(k, v). JStr k) items)"
| "py_iter _ = None"

text \<open>
  A Python number: an \<open>int\<close> or a \<open>float\<close>. Converting an \<open>int\<close> to a \<open>float\<close>
  rounds to the nearest double and raises \<open>OverflowError\<close> when that would be
  \<open>2^1024\<close>, that is from \<open>DBL_INT_LIMIT\<close> (the midpoint between the largest double
  \<open>2^1024 - 2^971\<close> and \<open>2^1024\<close>) upwards in absolute value.
\<close>

datatype pynum = PInt int | PFloat real

fun num_val :: "pynum \<Rightarrow> real" where
  "num_val (PInt n) = of_int n"
| "num_val (PFloat r) = r"

definition DBL_INT_LIMIT :: int where
  "DBL_INT_LIMIT = 2 ^ 1024 - 2 ^ 970"

text \<open>
  A stored value that \<open>engineering_format\<close> accepts, as the Python number it is: a
  \<open>float\<close>, a boolean (which Python treats as the \<open>int\<close> 1 or 0) or an \<open>int\<close> that
  a double can hold (a larger one passes \<open>abs_value >= exp\<close> for \<open>exp = 1e9\<close> and
  then fails in \<open>value / exp\<close>). A stored tuple that \<open>_update_table\<close> accepts:
  exactly two such values.
\<close>

fun numeric :: "json \<Rightarrow> pynum option" where
  "numeric (JInt n) = (if \<bar>n\<bar> < DBL_INT_LIMIT then Some (PInt n) else None)"
| "numeric (JFloat r) = Some (PFloat r)"
| "numeric (JBool b) = Some (PInt (if b then 1 else 0))"
| "numeric _ = None"

fun as_point :: "json list \<Rightarrow> (pynum \<times> pynum) option" where
  "as_point [a, b] =
     (case numeric a of None \<Rightarrow> None
      | Some t \<Rightarrow> (case numeric b of None \<Rightarrow> None | Some v \<Rightarrow> Some (t, v)))"
| "as_point _ = None"

definition as_points :: "json list list \<Rightarrow> (pynum \<times> pynum) list option" where
  "as_points tuples = those (map as_point tuples)"

definition point_of :: "pynum \<times> pynum \<Rightarrow> point" where
  "point_of p = (num_val (fst p), num_val (snd p))"

text \<open>
  \<open>min\<close> and \<open>max\<close> of a non-empty list of numbers return the first of the smallest
  and the first of the largest elements, with the type that element has. The
  difference of two \<open>int\<close>s is an \<open>int\<close>; multiplying it by a \<open>float\<close> converts it.
  In the other branch of the range, \<open>max(abs(hi), 1.0)\<close> is \<open>1.0\<close> or the absolute
  value of a stored number, which a double can hold. \<open>fit_overflows\<close> is the test
  whether \<open>zoom_to_all_points\<close> raises on the stored points.
\<close>

definition py_min :: "pynum list \<Rightarrow> pynum" where
  "py_min xs = foldl (\<lambda>m x. if num_val x < num_val m then x else m) (hd xs) (tl xs)"

definition py_max :: "pynum list \<Rightarrow> pynum" where
  "py_max xs = foldl (\<lambda>m x. if num_val m < num_val x then x else m) (hd xs) (tl xs)"

definition range_overflows :: "pynum list \<Rightarrow> bool" where
  "range_overflows xs =
     (case (py_min xs, py_max xs) of
        (PInt lo, PInt hi) \<Rightarrow> lo < hi \<and> DBL_INT_LIMIT \<le> hi - lo
      | _ \<Rightarrow> False)"

definition fit_overflows :: "(pynum \<times> pynum) list \<Rightarrow> bool" where
  "fit_overflows nums \<longleftrightarrow>
     nums \<noteq> [] \<and>
     (range_overflows (map fst nums @ [PInt 0]) \<or> range_overflows (map snd nums))"

text \<open>\<open>[tuple(p) for p in data["points"]]\<close>.\<close>

definition file_tuples :: "json \<Rightarrow> json list list option" where
  "file_tuples ps =
     (case py_iter ps of None \<Rightarrow> None
      | Some entries \<Rightarrow> those (map py_iter entries))"

definition load_waveform_from_file :: "json \<Rightarrow> load_state \<Rightarrow> load_error option \<times> load_state" where
  "load_waveform_from_file data st =
     (case contains_points data of
        None \<Rightarrow> (Some NotIterable, st)
      | Some False \<Rightarrow> (Some MissingField, st)
      | Some True \<Rightarrow>
          (case get_points data of
             None \<Rightarrow> (Some NotSubscriptable, st)
           | Some ps \<Rightarrow>
               (case file_tuples ps of
                  None \<Rightarrow> (Some NotIterable, st)
                | Some tuples \<Rightarrow>
                    let st = st\<lparr>raw_points := tuples\<rparr>
                    in (case as_points tuples of
                          None \<Rightarrow> (Some BadPoint, st)
                        | Some nums \<Rightarrow>
                            if fit_overflows nums then (Some BadPoint, st)
                            else (None, st\<lparr>view := zoom_to_all_points (map point_of nums)
                                                      (view st)\<rparr>)))))"

subsection \<open>Example files and states\<close>

text \<open>
  A store of well-formed points as the load handler sees it; a file whose only entry
  has three numbers; a file whose two points are in descending time order; a file
  whose only point has the time \<open>10^400\<close>; a file whose two values are \<open>10^308\<close> and
  \<open>-10^308\<close>; an editor in placement mode about to put \<open>(0, 1)\<close> on top of the
  stored point \<open>(0, 0)\<close>; a drag session holding the last two of four points, to be
  squeezed into the gap between the first two; and an editor with its second point
  selected.
\<close>

definition stored_state :: "point list \<Rightarrow> canvas \<Rightarrow> load_state" where
  "stored_state pts c = \<lparr>raw_points = map (\<lambda>(t, v). [JFloat t, JFloat v]) pts, view = c\<rparr>"


definition file_unsorted :: json where
  "file_unsorted = JObj [(''points'', JArr [JArr [JFloat 1, JFloat 0], JArr [JFloat 0, JFloat 0]]),
     (''version'', JStr ''1.0''), (''type'', JStr ''pwl_waveform'')]"



definition placement_example :: editor where
  "placement_example =
     (idle_editor [(0, 0)])\<lparr>placement_mode := True, placement_data := [(0, 1)]\<rparr>"

definition squeeze_example :: editor where
  "squeeze_example =
     (idle_editor [(0, 0), (2 / 10 ^ 12, 0), (5 / 10 ^ 12, 0), (6 / 10 ^ 12, 0)])
       \<lparr>selected_indices := {2, 3}, primary_selected_index := Some 2,
        dragging_indices := [2, 3], drag_start := Some (5 / 10 ^ 12, 0),
        drag_original_data := [2 \<mapsto> (5 / 10 ^ 12, 0), 3 \<mapsto> (6 / 10 ^ 12, 0)]\<rparr>"

definition selected_example :: editor where
  "selected_example =
     (idle_editor [(0, 0), (1, 1)])\<lparr>selected_indices := {1}, primary_selected_index := Some 1\<rparr>"

section \<open>Waveform generator\<close>

text \<open>
  \<open>_wave_params_to_points\<close>. The keyword arguments are the fields of
  \<open>wave_params\<close> (named \<open>p_\<close> and the argument's name), \<open>None\<close> for an argument
  passed as \<open>None\<close>; \<open>default_wave_params\<close> holds the defaults of the signature.
  The three \<open>while\<close> loops add the period (or \<open>dt\<close>) to \<open>t\<close> until it passes the
  duration, so they are partial functions whose value \<open>None\<close> stands for a loop
  that never ends; the list \<open>pts\<close> is the accumulator. A wave type other than the
  three known ones yields the empty list.
\<close>

record wave_params =
  p_freq :: "real option"
  p_period :: "real option"
  p_amp :: "real option"
  p_offset :: "real option"
  p_duration :: "real option"
  p_duty :: "real option"
  p_t_high :: "real option"
  p_tr :: "real option"
  p_tf :: "real option"
  p_rise_ratio :: "real option"
  p_t_rise :: "real option"
  p_ppc :: "real option"

definition default_wave_params :: wave_params where
  "default_wave_params =
     \<lparr>p_freq = None, p_period = None, p_amp = Some 1, p_offset = Some 0, p_duration = Some (1 / 100),
      p_duty = None, p_t_high = None, p_tr = None, p_tf = None, p_rise_ratio = None, p_t_rise = None,
      p_ppc = Some 50\<rparr>"

text \<open>\<open>x is None or P(x)\<close>, and \<open>x is not None and P(x)\<close>.\<close>

definition none_or :: "('a \<Rightarrow> bool) \<Rightarrow> 'a option \<Rightarrow> bool" where
  "none_or P x = (case x of None \<Rightarrow> True | Some y \<Rightarrow> P y)"

definition some_and :: "('a \<Rightarrow> bool) \<Rightarrow> 'a option \<Rightarrow> bool" where
  "some_and P x = (case x of None \<Rightarrow> False | Some y \<Rightarrow> P y)"

partial_function (option) sine_loop ::
  "real \<Rightarrow> real \<Rightarrow> real \<Rightarrow> real \<Rightarrow> real \<Rightarrow> real \<Rightarrow> point list \<Rightarrow> point list option" where
  "sine_loop period amp offset duration dt t pts =
     (if t \<le> duration + 1 / 10 ^ 15 then
        sine_loop period amp offset duration dt (t + dt)
          (pts @ [(t, amp * sin (2 * pi * (1 / period) * t) + offset)])
      else Some pts)"

partial_function (option) square_loop ::
  "real \<Rightarrow> real \<Rightarrow> real \<Rightarrow> real \<Rightarrow> real \<Rightarrow> real \<Rightarrow> real \<Rightarrow> real \<Rightarrow> point list \<Rightarrow> point list option"
  where
  "square_loop period tr tf t_high amp offset duration t pts =
     (if t < duration - 1 / 10 ^ 15 then
        (let pts = pts @ [(t, offset - amp)];
             pts = pts @ [(min (t + tr) duration, offset + amp)];
             pts = (if t + t_high < duration then
                      (pts @ [(t + t_high, offset + amp)]) @
                        [(min (t + t_high + tf) duration, offset - amp)]
                    else pts);
             t = t + period;
             pts = (if t < duration then pts @ [(t, offset - amp)] else pts)
         in square_loop period tr tf t_high amp offset duration t pts)
      else Some pts)"

partial_function (option) triangle_loop ::
  "real \<Rightarrow> real \<Rightarrow> real \<Rightarrow> real \<Rightarrow> real \<Rightarrow> real \<Rightarrow> point list \<Rightarrow> point list option" where
  "triangle_loop period t_rise amp offset duration t pts =
     (if t < duration - 1 / 10 ^ 15 then
        (let pts = pts @ [(t, offset - amp)];
             peak_t = t + t_rise;
             pts = (if peak_t \<le> duration then pts @ [(peak_t, offset + amp)] else pts);
             end_t = t + period;
             pts = (if end_t \<le> duration then pts @ [(end_t, offset - amp)] else pts)
         in triangle_loop period t_rise amp offset duration (t + period) pts)
      else Some pts)"

declare square_loop.simps [code]
declare triangle_loop.simps [code]

text \<open>Sort by time (stable), then shift so that the first time is 0.\<close>

definition normalize_start :: "point list \<Rightarrow> point list" where
  "normalize_start pts =
     (let pts = sort_key fst pts
      in if pts = [] then pts else (let s0 = fst (pts ! 0) in map (\<lambda>(t, v). (t - s0, v)) pts))"

definition wave_params_to_points :: "string \<Rightarrow> wave_params \<Rightarrow> point list option" where
  "wave_params_to_points wave_type p =
     (let period =
            (if none_or (\<lambda>x. x \<le> 0) (p_period p) then
               (let freq = (if none_or (\<lambda>x. x \<le> 0) (p_freq p) then 1 / 10 ^ 9 else the (p_freq p))
                in 1 / freq)
             else the (p_period p));
          amp = (case p_amp p of None \<Rightarrow> 1 | Some a \<Rightarrow> a);
          offset = (case p_offset p of None \<Rightarrow> 0 | Some b \<Rightarrow> b);
          duration = (if none_or (\<lambda>x. x \<le> 0) (p_duration p) then period else the (p_duration p));
          result =
            (if wave_type = ''sine'' then
               (let ppc = (if none_or (\<lambda>x. x < 4) (p_ppc p) then 50 else the (p_ppc p));
                    dt = period / ppc
                in sine_loop period amp offset duration dt 0 [])
             else if wave_type = ''square'' then
               (let tr = (if none_or (\<lambda>x. x \<le> 0) (p_tr p) then period / 100 else the (p_tr p));
                    tf = (if none_or (\<lambda>x. x \<le> 0) (p_tf p) then period / 100 else the (p_tf p));
                    (tr, tf) = (if period \<le> tr + tf then (period / 20, period / 20) else (tr, tf));
                    t_high =
                      (if some_and (\<lambda>x. 0 < x) (p_t_high p) then
                         min (the (p_t_high p)) (max (1 / 10 ^ 15) (period - (tr + tf)))
                       else
                         (let duty = (case p_duty p of None \<Rightarrow> 1 / 2 | Some d \<Rightarrow> d);
                              duty = max 0 (min 1 duty)
                          in period * duty))
                in square_loop period tr tf t_high amp offset duration 0 [])
             else if wave_type = ''triangle'' then
               (let t_rise =
                      (if some_and (\<lambda>x. 0 \<le> x) (p_t_rise p) then
                         min period (max 0 (the (p_t_rise p)))
                       else
                         (let rise_ratio = (case p_rise_ratio p of None \<Rightarrow> 1 / 2 | Some r \<Rightarrow> r);
                              rise_ratio = max 0 (min 1 rise_ratio)
                          in period * rise_ratio))
                in triangle_loop period t_rise amp offset duration 0 [])
             else Some [])
      in map_option normalize_start result)"

text \<open>The arguments of the two generator tests.\<close>

definition square_example :: wave_params where
  "square_example =
     default_wave_params\<lparr>p_period := Some (1 / 10 ^ 6), p_amp := Some 1, p_offset := Some 0,
       p_duration := Some (1 / 10 ^ 6), p_t_high := Some (2 / 10 ^ 7),
       p_tr := Some (1 / 10 ^ 8), p_tf := Some (1 / 10 ^ 8)\<rparr>"

definition triangle_example :: wave_params where
  "triangle_example =
     default_wave_params\<lparr>p_period := Some (1 / 10 ^ 6), p_amp := Some 1, p_offset := Some 0,
       p_duration := Some (1 / 10 ^ 6), p_t_rise := Some (3 / 10 ^ 7)\<rparr>"

section \<open>Numeric codec\<close>

text \<open>
  \<open>engineering_format\<close> and \<open>parse_engineering_format\<close>, on strings. The three
  conversions of Python that they call are modelled on exact reals:
  \<^item> \<open>f"{x:.6f}"\<close> is \<open>fmt_fixed6\<close>: a minus sign for a negative \<open>x\<close>, the integer
    part, a point and six fractional digits, the value rounded to the nearest
    multiple of \<open>1e-6\<close> with a tie going to the even one;
  \<^item> \<open>f"{x:.3e}"\<close> is \<open>fmt_sci3\<close>: one digit, a point, three fractional digits, and
    the decimal exponent with a sign and at least two digits;
  \<^item> \<open>float(s)\<close> is \<open>py_float\<close>: single underscores between digits are dropped,
    then surrounding whitespace, and what remains is an optional sign, digits with
    an optional point (at least one digit), and an optional exponent; \<open>None\<close> is
    the \<open>ValueError\<close>. The result is the exact value of the text: the model has
    no rounding to a double, no underflow to zero, no overflow to infinity, and no
    counterpart for the spellings of infinity and NaN, which \<open>float\<close> also accepts.
  A string is a list of the characters with code points 0 to 255. Integers that can
  be large are of type \<open>int\<close>, as in Python.
\<close>

subsection \<open>Digits\<close>

definition digit_chars :: string where
  "digit_chars = ''0123456789''"

definition digit_char :: "int \<Rightarrow> char" where
  "digit_char d = digit_chars ! nat d"

definition is_digit :: "char \<Rightarrow> bool" where
  "is_digit c \<longleftrightarrow> c \<in> set digit_chars"

definition digit_val :: "char \<Rightarrow> int" where
  "digit_val c = (case py_index digit_chars c of Some d \<Rightarrow> int d | None \<Rightarrow> 0)"

function show_nat :: "int \<Rightarrow> string" where
  "show_nat n = (if n < 10 then [digit_char n] else show_nat (n div 10) @ [digit_char (n mod 10)])"
  by pat_completeness auto
termination
  by (relation "measure nat") auto

declare show_nat.simps [simp del]

fun digits_fixed :: "nat \<Rightarrow> int \<Rightarrow> string" where
  "digits_fixed 0 n = []"
| "digits_fixed (Suc k) n = digits_fixed k (n div 10) @ [digit_char (n mod 10)]"

definition nat_of_digits :: "string \<Rightarrow> int" where
  "nat_of_digits ds = foldl (\<lambda>acc c. acc * 10 + digit_val c) 0 ds"

subsection \<open>\<open>engineering_format\<close>\<close>

text \<open>\<open>s.rstrip(c)\<close> for a single character \<open>c\<close>.\<close>

definition py_rstrip :: "char \<Rightarrow> string \<Rightarrow> string" where
  "py_rstrip c s = rev (dropWhile (\<lambda>x. x = c) (rev s))"

definition fmt_fixed6 :: "real \<Rightarrow> string" where
  "fmt_fixed6 x =
     (let n = py_round (\<bar>x\<bar> * 10 ^ 6)
      in (if x < 0 then ''-'' else '''') @ show_nat (n div 10 ^ 6) @ ''.'' @
         digits_fixed 6 (n mod 10 ^ 6))"

text \<open>
  The decimal exponent of a positive number: the \<open>e\<close> with
  \<open>10^e \<le> x < 10^(e+1)\<close> (\<open>decimal_exponent_bounds\<close>).
\<close>

function decimal_exponent :: "real \<Rightarrow> int" where
  "decimal_exponent x =
     (if x \<le> 0 then 0
      else if x < 1 then decimal_exponent (x * 10) - 1
      else if 10 \<le> x then decimal_exponent (x / 10) + 1
      else 0)"
  by pat_completeness auto
termination
proof (relation "measure (\<lambda>x. nat \<bar>\<lfloor>log 10 x\<rfloor>\<bar>)")
  show "wf (measure (\<lambda>x. nat \<bar>\<lfloor>log 10 x\<rfloor>\<bar>))" by simp
next
  fix x :: real
  assume "\<not> x \<le> 0" and "x < 1"
  then have x: "0 < x" "x < 1" by simp_all
  then have "log 10 x < 0" by simp
  then have f: "\<lfloor>log 10 x\<rfloor> \<le> - 1" by linarith
  from x have "log 10 (x * 10) = log 10 x + 1" by (simp add: log_mult)
  then have "\<lfloor>log 10 (x * 10)\<rfloor> = \<lfloor>log 10 x\<rfloor> + 1" by simp
  with f show "(x * 10, x) \<in> measure (\<lambda>x. nat \<bar>\<lfloor>log 10 x\<rfloor>\<bar>)" by simp
next
  fix x :: real
  assume "\<not> x \<le> 0" and "\<not> x < 1" and "10 \<le> x"
  then have x: "10 \<le> x" by simp
  then have "1 \<le> log 10 x" using log_le_cancel_iff [of 10 10 x] by simp
  then have f: "1 \<le> \<lfloor>log 10 x\<rfloor>" by linarith
  from x have "log 10 (x / 10) = log 10 x - 1" by (simp add: log_divide)
  then have "\<lfloor>log 10 (x / 10)\<rfloor> = \<lfloor>log 10 x\<rfloor> - 1" by simp
  with f show "(x / 10, x) \<in> measure (\<lambda>x. nat \<bar>\<lfloor>log 10 x\<rfloor>\<bar>)" by simp
qed

declare decimal_exponent.simps [simp del]

definition fmt_sci3 :: "real \<Rightarrow> string" where
  "fmt_sci3 x =
     (let e = decimal_exponent \<bar>x\<bar>;
          m = py_round (\<bar>x\<bar> / 10 powi e * 10 ^ 3);
          (m, e) = (if m = 10 ^ 4 then (10 ^ 3, e + 1) else (m, e))
      in (if x < 0 then ''-'' else '''') @ show_nat (m div 10 ^ 3) @ ''.'' @
         digits_fixed 3 (m mod 10 ^ 3) @ ''e'' @ (if e < 0 then ''-'' else ''+'') @
         (if \<bar>e\<bar> < 10 then ''0'' else '''') @ show_nat \<bar>e\<bar>)"

text \<open>
  \<open>sorted(self.ENGINEERING_PREFIXES.keys(), reverse=True)\<close> with the letter of each
  key, and the items of \<open>PREFIX_TO_VALUE\<close> in the order of the dict.
\<close>

definition ENGINEERING_PREFIXES_sorted :: "(real \<times> string) list" where
  "ENGINEERING_PREFIXES_sorted =
     [(10 ^ 9, ''G''), (10 ^ 6, ''M''), (10 ^ 3, ''k''), (1, ''''),
      (1 / 10 ^ 3, ''m''), (1 / 10 ^ 6, ''u''), (1 / 10 ^ 9, ''n''), (1 / 10 ^ 12, ''p'')]"

definition PREFIX_TO_VALUE :: "(string \<times> real) list" where
  "PREFIX_TO_VALUE =
     [(''p'', 1 / 10 ^ 12), (''n'', 1 / 10 ^ 9), (''u'', 1 / 10 ^ 6), (''m'', 1 / 10 ^ 3),
      ('''', 1), (''k'', 10 ^ 3), (''M'', 10 ^ 6), (''G'', 10 ^ 9)]"

definition engineering_format :: "real \<Rightarrow> string" where
  "engineering_format val =
     (if val = 0 then ''0''
      else
        (case find (\<lambda>(expo, pfx). expo \<le> \<bar>val\<bar>) ENGINEERING_PREFIXES_sorted of
           Some (expo, pfx) \<Rightarrow>
             py_rstrip (CHR ''.'') (py_rstrip (CHR ''0'') (fmt_fixed6 (val / expo))) @ pfx
         | None \<Rightarrow> fmt_sci3 val))"

subsection \<open>\<open>parse_engineering_format\<close>\<close>

text \<open>
  \<open>str.strip()\<close> drops the whitespace characters at both ends; among the code
  points up to 255 these are the space, \<open>0x09\<close> to \<open>0x0D\<close>, \<open>0x1C\<close> to \<open>0x1F\<close>,
  \<open>0x85\<close> and \<open>0xA0\<close>.
\<close>

definition is_space :: "char \<Rightarrow> bool" where
  "is_space c \<longleftrightarrow> c \<in> set [CHR '' '', CHR 0x09, CHR 0x0A, CHR 0x0B, CHR 0x0C, CHR 0x0D,
     CHR 0x1C, CHR 0x1D, CHR 0x1E, CHR 0x1F, CHR 0x85, CHR 0xA0]"

definition py_strip :: "string \<Rightarrow> string" where
  "py_strip s = rev (dropWhile is_space (rev (dropWhile is_space s)))"

text \<open>
  \<open>float(s)\<close> has its own notion of whitespace: it turns the whitespace characters
  above \<open>0x7F\<close> into spaces and then skips, at both ends, the space and \<open>0x09\<close> to
  \<open>0x0D\<close> only. Before that it checks the underscores, in one pass over the whole
  string with the previous character at hand: an underscore must come after a
  digit, the character after an underscore must be a digit, and the string must not
  end with one.
\<close>

definition is_float_space :: "char \<Rightarrow> bool" where
  "is_float_space c \<longleftrightarrow>
     c \<in> set [CHR '' '', CHR 0x09, CHR 0x0A, CHR 0x0B, CHR 0x0C, CHR 0x0D, CHR 0x85, CHR 0xA0]"

definition float_strip :: "string \<Rightarrow> string" where
  "float_strip s = rev (dropWhile is_float_space (rev (dropWhile is_float_space s)))"

fun underscores_ok :: "char \<Rightarrow> string \<Rightarrow> bool" where
  "underscores_ok prev [] \<longleftrightarrow> prev \<noteq> CHR ''_''"
| "underscores_ok prev (c # cs) \<longleftrightarrow>
     (if c = CHR ''_'' then is_digit prev else prev = CHR ''_'' \<longrightarrow> is_digit c) \<and>
     underscores_ok c cs"

definition parse_digits :: "string \<Rightarrow> int option" where
  "parse_digits ds = (if ds \<noteq> [] \<and> list_all is_digit ds then Some (nat_of_digits ds) else None)"

definition parse_exponent :: "string \<Rightarrow> int option" where
  "parse_exponent s =
     (case s of
        [] \<Rightarrow> None
      | c # cs \<Rightarrow>
          if c = CHR ''-'' then map_option uminus (parse_digits cs)
          else if c = CHR ''+'' then parse_digits cs
          else parse_digits s)"

definition is_exp_char :: "char \<Rightarrow> bool" where
  "is_exp_char c \<longleftrightarrow> c = CHR ''e'' \<or> c = CHR ''E''"

definition parse_unsigned :: "string \<Rightarrow> real option" where
  "parse_unsigned s =
     (let mant = takeWhile (\<lambda>c. \<not> is_exp_char c) s;
          rest = dropWhile (\<lambda>c. \<not> is_exp_char c) s;
          ip = takeWhile (\<lambda>c. c \<noteq> CHR ''.'') mant;
          dot_fp = dropWhile (\<lambda>c. c \<noteq> CHR ''.'') mant;
          fp = (if dot_fp = [] then [] else tl dot_fp);
          ex = (if rest = [] then Some 0 else parse_exponent (tl rest))
      in if list_all is_digit ip \<and> list_all is_digit fp \<and> (ip \<noteq> [] \<or> fp \<noteq> []) then
           (case ex of
              None \<Rightarrow> None
            | Some e \<Rightarrow>
                Some ((of_int (nat_of_digits ip) + of_int (nat_of_digits fp) / 10 ^ length fp)
                      * 10 powi e))
         else None)"

definition py_float :: "string \<Rightarrow> real option" where
  "py_float text =
     (if underscores_ok (CHR 0x00) text then
        (case float_strip (filter (\<lambda>c. c \<noteq> CHR ''_'') text) of
           [] \<Rightarrow> None
         | c # cs \<Rightarrow>
             if c = CHR ''-'' then map_option uminus (parse_unsigned cs)
             else if c = CHR ''+'' then parse_unsigned cs
             else parse_unsigned (c # cs))
      else None)"

definition parse_engineering_format :: "string \<Rightarrow> real option" where
  "parse_engineering_format text =
     (let text = py_strip text
      in if text = [] then None
         else
           (case find (\<lambda>(pfx, factor). pfx \<noteq> [] \<and> suffix pfx text) PREFIX_TO_VALUE of
              Some (pfx, factor) \<Rightarrow>
                map_option (\<lambda>x. x * factor)
                  (py_float (take (length text - length pfx) text))
            | None \<Rightarrow> py_float text))"

subsection \<open>Notions used in the codec proofs\<close>

text \<open>
  The value of a string of fractional digits; the text and the value that the
  fixed-point branch of \<open>engineering_format\<close> produces before the prefix letter is
  appended; and the text of \<open>fmt_sci3\<close> for a given sign, mantissa (in thousandths)
  and exponent.
\<close>

definition frac_val :: "string \<Rightarrow> real" where
  "frac_val ds = of_int (nat_of_digits ds) / 10 ^ length ds"

definition fixed6_value :: "real \<Rightarrow> real" where
  "fixed6_value x = (if x < 0 then - 1 else 1) * (of_int (py_round (\<bar>x\<bar> * 10 ^ 6)) / 10 ^ 6)"

definition fixed6_text :: "real \<Rightarrow> string" where
  "fixed6_text x = py_rstrip (CHR ''.'') (py_rstrip (CHR ''0'') (fmt_fixed6 x))"

definition sci_text :: "bool \<Rightarrow> int \<Rightarrow> int \<Rightarrow> string" where
  "sci_text neg m e =
     (if neg then ''-'' else []) @ show_nat (m div 10 ^ 3) @ ''.'' @
     digits_fixed 3 (m mod 10 ^ 3) @ ''e'' @ (if e < 0 then ''-'' else ''+'') @
     (if \<bar>e\<bar> < 10 then ''0'' else []) @ show_nat \<bar>e\<bar>"

section \<open>Properties of \<open>_ensure_min_spacing\<close>\<close>

lemma TIME_MIN_PRECISION_pos: "0 < TIME_MIN_PRECISION"
  by (simp add: TIME_MIN_PRECISION_def)

lemma spaced_after_spacing_loop: "spaced_after p (spacing_loop (Some p) pts)"
  by (induction pts arbitrary: p) (auto simp: Let_def)

lemma spacing_loop_fixed: "spaced_after p pts \<Longrightarrow> spacing_loop (Some p) pts = pts"
  by (induction pts arbitrary: p) (auto simp: Let_def)

lemma spaced_after_lower: "spaced_after p pts \<Longrightarrow> (t, v) \<in> set pts \<Longrightarrow> p < t"
proof (induction pts arbitrary: p)
  case Nil
  then show ?case by simp
next
  case (Cons a pts)
  obtain t' v' where a: "a = (t', v')" by (cases a)
  from Cons.prems a have step: "TIME_MIN_PRECISION \<le> t' - p" and rest: "spaced_after t' pts"
    by simp_all
  from step TIME_MIN_PRECISION_pos have "p < t'" by linarith
  with Cons.IH [OF rest] Cons.prems(2) a show ?case by fastforce
qed

lemma spaced_after_sorted: "spaced_after p pts \<Longrightarrow> sorted (map fst ((p, w) # pts))"
proof (induction pts arbitrary: p w)
  case Nil
  then show ?case by simp
next
  case (Cons a pts)
  obtain t' v' where a: "a = (t', v')" by (cases a)
  from Cons.prems a have rest: "spaced_after t' pts" by simp
  have "\<forall>x \<in> set (a # pts). p \<le> fst x"
    using spaced_after_lower [OF Cons.prems] by force
  moreover have "sorted (map fst (a # pts))"
    using Cons.IH [OF rest, of v'] a by simp
  ultimately show ?case by simp
qed

lemma spacing_invariant_spacing_loop:
  "pts \<noteq> [] \<Longrightarrow> spacing_invariant (spacing_loop None pts)"
  by (cases pts) (auto simp: Let_def spaced_after_spacing_loop)

lemma spacing_invariant_fixed:
  "spacing_invariant pts \<Longrightarrow> pts \<noteq> [] \<Longrightarrow> spacing_loop None pts = pts"
  by (cases pts) (auto simp: Let_def spacing_loop_fixed)

lemma spacing_invariant_sorted: "spacing_invariant pts \<Longrightarrow> sorted (map fst pts)"
proof (cases pts)
  case Nil
  then show ?thesis by simp
next
  case (Cons a rest)
  assume inv: "spacing_invariant pts"
  obtain t v where a: "a = (t, v)" by (cases a)
  from inv Cons a have "spaced_after t rest" by simp
  from spaced_after_sorted [OF this, of v] Cons a show ?thesis by simp
qed

lemma spacing_invariant_ensure_min_spacing: "spacing_invariant (ensure_min_spacing pts)"
proof (cases "pts = []")
  case True
  then show ?thesis by (simp add: ensure_min_spacing_def)
next
  case False
  then have "sort_key fst pts \<noteq> []"
    by (metis length_sort list.size(3) length_0_conv)
  from spacing_invariant_spacing_loop [OF this] False show ?thesis
    by (simp add: ensure_min_spacing_def)
qed

lemma ensure_min_spacing_fixed:
  assumes "spacing_invariant pts"
  shows "ensure_min_spacing pts = pts"
proof (cases "pts = []")
  case True
  then show ?thesis by (simp add: ensure_min_spacing_def)
next
  case False
  from spacing_invariant_sorted [OF assms] have "sort_key fst pts = pts"
    by (rule sort_key_id_if_sorted)
  with spacing_invariant_fixed [OF assms False] False show ?thesis
    by (simp add: ensure_min_spacing_def)
qed

text \<open>
  Claim C5. \<open>ensureMinSpacing\<close> is idempotent: for every input point list, applying
  it twice gives the same list as applying it once.
\<close>

theorem ensure_min_spacing_idempotent:
  "ensure_min_spacing (ensure_min_spacing pts) = ensure_min_spacing pts"
  by (rule ensure_min_spacing_fixed) (rule spacing_invariant_ensure_min_spacing)

section \<open>Properties of the store operations\<close>

subsection \<open>\<open>list.index\<close> and the conflict check\<close>

lemma py_index_from_Some:
  "py_index_from k xs x = Some i \<Longrightarrow>
     k \<le> i \<and> i - k < length xs \<and> xs ! (i - k) = x \<and> (\<forall>j < i - k. xs ! j \<noteq> x)"
proof (induction xs arbitrary: k)
  case Nil
  then show ?case by simp
next
  case (Cons y ys)
  show ?case
  proof (cases "y = x")
    case True
    with Cons.prems show ?thesis by simp
  next
    case False
    with Cons.prems have rec: "py_index_from (Suc k) ys x = Some i" by simp
    from Cons.IH [OF rec] have k: "Suc k \<le> i" and len: "i - Suc k < length ys"
      and at: "ys ! (i - Suc k) = x" and before: "\<forall>j < i - Suc k. ys ! j \<noteq> x"
      by simp_all
    from k have eq: "i - k = Suc (i - Suc k)" by simp
    have "\<forall>j < i - k. (y # ys) ! j \<noteq> x"
    proof (intro allI impI)
      fix j assume "j < i - k"
      then show "(y # ys) ! j \<noteq> x"
        using False before eq by (cases j) auto
    qed
    with k len at eq show ?thesis by simp
  qed
qed

lemma py_index_from_mem: "x \<in> set xs \<Longrightarrow> \<exists>i. py_index_from k xs x = Some i"
  by (induction xs arbitrary: k) auto

lemma py_index_Some:
  "py_index xs x = Some i \<Longrightarrow> i < length xs \<and> xs ! i = x \<and> (\<forall>j < i. xs ! j \<noteq> x)"
  using py_index_from_Some [of 0 xs x i] by (simp add: py_index_def)

lemma py_index_mem: "x \<in> set xs \<Longrightarrow> \<exists>i. py_index xs x = Some i"
  by (simp add: py_index_def py_index_from_mem)

lemma check_conflict_loop_iff:
  "check_conflict_loop k pts new_time ex \<longleftrightarrow>
     (\<exists>i < length pts. ex \<noteq> Some (k + i) \<and> \<bar>fst (pts ! i) - new_time\<bar> < TIME_MIN_PRECISION * 2)"
proof (induction pts arbitrary: k)
  case Nil
  then show ?case by simp
next
  case (Cons a pts)
  obtain t v where a: "a = (t, v)" by (cases a)
  show ?case
    unfolding a using Cons.IH [of "Suc k"] by (cases "ex = Some k") (auto simp: Ex_less_Suc2)
qed

lemma check_time_conflict_iff:
  "check_time_conflict pts new_time ex \<longleftrightarrow>
     (\<exists>i < length pts. ex \<noteq> Some i \<and> \<bar>fst (pts ! i) - new_time\<bar> < 2 * TIME_MIN_PRECISION)"
  by (simp add: check_time_conflict_def check_conflict_loop_iff mult.commute)

lemma check_time_conflict_None:
  "check_time_conflict pts new_time None \<longleftrightarrow>
     (\<exists>p \<in> set pts. \<bar>fst p - new_time\<bar> < 2 * TIME_MIN_PRECISION)"
  unfolding check_time_conflict_iff by (simp, metis in_set_conv_nth)

subsection \<open>\<open>add_point\<close>\<close>

text \<open>
  Claim C4, as the code has it. \<open>addPoint(t, v)\<close> fails with \<open>NegativeTime\<close> when
  \<open>t < 0\<close>, whatever the store holds, because that check comes first. For \<open>t \<ge> 0\<close>
  it fails with \<open>TimeConflict\<close> exactly when some existing point's time is less than
  \<open>2 \<times> TIME_MIN_PRECISION\<close> away from \<open>t\<close>. Otherwise it succeeds: the new store is
  the sorted store with the point added, and the index that is selected and made
  primary is the first position of \<open>(t, v)\<close> in the sorted store. On the store
  \<open>[(0,0), (1,1)]\<close> the conflict check is true at \<open>0\<close> and at \<open>0 + 1e-13\<close>, false at
  \<open>0.5\<close>, and false at \<open>0\<close> when index 0 is excluded.
\<close>

theorem add_point_outcome:
  "(t < 0 \<longrightarrow> add_point t v ed = Inl NegativeTime) \<and>
   (0 \<le> t \<longrightarrow>
      (add_point t v ed = Inl TimeConflict) =
      (\<exists>p \<in> set (points ed). \<bar>fst p - t\<bar> < 2 * TIME_MIN_PRECISION)) \<and>
   (0 \<le> t \<and> \<not> (\<exists>p \<in> set (points ed). \<bar>fst p - t\<bar> < 2 * TIME_MIN_PRECISION) \<longrightarrow>
      (\<exists>idx pts. add_point t v ed =
           Inr (ed\<lparr>points := pts, primary_selected_index := Some idx,
                   selected_indices := {idx}\<rparr>) \<and>
         sorted pts \<and> mset pts = mset (points ed) + {#(t, v)#} \<and>
         idx < length pts \<and> pts ! idx = (t, v) \<and> (\<forall>j < idx. pts ! j \<noteq> (t, v)))) \<and>
   check_time_conflict [(0, 0), (1, 1)] 0 None \<and>
   check_time_conflict [(0, 0), (1, 1)] (0 + 1 / 10 ^ 13) None \<and>
   \<not> check_time_conflict [(0, 0), (1, 1)] (1 / 2) None \<and>
   \<not> check_time_conflict [(0, 0), (1, 1)] 0 (Some 0)"
proof (intro conjI impI)
  assume "t < 0"
  then show "add_point t v ed = Inl NegativeTime" by (simp add: add_point_def)
next
  assume t: "0 \<le> t"
  let ?pts = "sort (points ed @ [(t, v)])"
  have "(t, v) \<in> set ?pts" by simp
  from py_index_mem [OF this] obtain i where i: "py_index ?pts (t, v) = Some i" ..
  show "(add_point t v ed = Inl TimeConflict) =
      (\<exists>p \<in> set (points ed). \<bar>fst p - t\<bar> < 2 * TIME_MIN_PRECISION)"
    using t i by (simp add: add_point_def check_time_conflict_None Let_def)
next
  assume h: "0 \<le> t \<and> \<not> (\<exists>p \<in> set (points ed). \<bar>fst p - t\<bar> < 2 * TIME_MIN_PRECISION)"
  let ?pts = "sort (points ed @ [(t, v)])"
  have "(t, v) \<in> set ?pts" by simp
  from py_index_mem [OF this] obtain i where i: "py_index ?pts (t, v) = Some i" ..
  from h have nc: "\<not> check_time_conflict (points ed) t None"
    by (simp add: check_time_conflict_None)
  have res: "add_point t v ed =
      Inr (ed\<lparr>points := ?pts, primary_selected_index := Some i, selected_indices := {i}\<rparr>)"
    using h nc i by (simp add: add_point_def Let_def)
  have "sorted ?pts" by simp
  moreover have "mset ?pts = mset (points ed) + {#(t, v)#}" by simp
  ultimately show "\<exists>idx pts. add_point t v ed =
           Inr (ed\<lparr>points := pts, primary_selected_index := Some idx,
                   selected_indices := {idx}\<rparr>) \<and>
         sorted pts \<and> mset pts = mset (points ed) + {#(t, v)#} \<and>
         idx < length pts \<and> pts ! idx = (t, v) \<and> (\<forall>j < idx. pts ! j \<noteq> (t, v))"
    using res py_index_Some [OF i] by blast
next
  show "check_time_conflict [(0, 0), (1, 1)] 0 None"
    by (simp add: check_time_conflict_def TIME_MIN_PRECISION_def)
next
  show "check_time_conflict [(0, 0), (1, 1)] (0 + 1 / 10 ^ 13) None"
    by (simp add: check_time_conflict_def TIME_MIN_PRECISION_def)
next
  show "\<not> check_time_conflict [(0, 0), (1, 1)] (1 / 2) None"
    by (simp add: check_time_conflict_def TIME_MIN_PRECISION_def)
next
  show "\<not> check_time_conflict [(0, 0), (1, 1)] 0 (Some 0)"
    by (simp add: check_time_conflict_def TIME_MIN_PRECISION_def)
qed

theorem add_point_outcome_witness:
  "add_point (- 1) 0 (idle_editor [(0, 0), (1, 1)]) = Inl NegativeTime \<and>
   add_point 1 0 (idle_editor [(0, 0), (1, 1)]) = Inl TimeConflict \<and>
   (\<exists>idx pts. add_point (1 / 2) 0 (idle_editor [(0, 0), (1, 1)]) =
       Inr ((idle_editor [(0, 0), (1, 1)])\<lparr>points := pts, primary_selected_index := Some idx,
              selected_indices := {idx}\<rparr>) \<and>
       idx < length pts \<and> pts ! idx = (1 / 2, 0))"
proof -
  let ?ed = "idle_editor [(0, 0), (1, 1)]"
  have a: "add_point (- 1) 0 ?ed = Inl NegativeTime"
    using add_point_outcome [of "- 1" 0 ?ed] by simp
  have b: "add_point 1 0 ?ed = Inl TimeConflict"
    using add_point_outcome [of 1 0 ?ed] by (simp add: idle_editor_def TIME_MIN_PRECISION_def)
  have "0 \<le> (1 / 2 :: real) \<and>
      \<not> (\<exists>p \<in> set (points ?ed). \<bar>fst p - 1 / 2\<bar> < 2 * TIME_MIN_PRECISION)"
    by (simp add: idle_editor_def TIME_MIN_PRECISION_def)
  with add_point_outcome [of "1 / 2" 0 ?ed]
  have c: "\<exists>idx pts. add_point (1 / 2) 0 ?ed =
       Inr (?ed\<lparr>points := pts, primary_selected_index := Some idx, selected_indices := {idx}\<rparr>) \<and>
       idx < length pts \<and> pts ! idx = (1 / 2, 0)"
    by blast
  from a b c show ?thesis by simp
qed

text \<open>
  The claim's "\<open>TimeConflict\<close> exactly when a point lies within
  \<open>2 \<times> TIME_MIN_PRECISION\<close>" fails for a negative time: with the store \<open>[(0,0)]\<close> and
  \<open>t = -1e-12\<close> the point at 0 is within the threshold, the conflict check itself is
  true, and \<open>add_point\<close> reports \<open>NegativeTime\<close>.
\<close>

theorem add_point_conflict_counterexample:
  "\<bar>fst (0 :: real, 0 :: real) - (- (1 / 10 ^ 12))\<bar> < 2 * TIME_MIN_PRECISION \<and>
   check_time_conflict (points (idle_editor [(0, 0)])) (- (1 / 10 ^ 12)) None \<and>
   add_point (- (1 / 10 ^ 12)) 0 (idle_editor [(0, 0)]) = Inl NegativeTime \<and>
   add_point (- (1 / 10 ^ 12)) 0 (idle_editor [(0, 0)]) \<noteq> Inl TimeConflict"
  by (simp add: idle_editor_def add_point_def check_time_conflict_def TIME_MIN_PRECISION_def)

subsection \<open>The spacing invariant under insertion and deletion\<close>

lemma gap_trans: "gap a b \<Longrightarrow> gap b c \<Longrightarrow> gap a c"
  using TIME_MIN_PRECISION_pos by (simp add: gap_def)

lemma gap_less: "gap a b \<Longrightarrow> a \<le> b"
  using TIME_MIN_PRECISION_pos by (cases a, cases b) (simp add: gap_def less_eq_prod_def)

lemma spaced_after_iff:
  "spaced_after p pts \<longleftrightarrow> sorted_wrt gap pts \<and> (\<forall>q \<in> set pts. TIME_MIN_PRECISION \<le> fst q - p)"
proof (induction pts arbitrary: p)
  case Nil
  then show ?case by simp
next
  case (Cons a pts)
  obtain t v where a: "a = (t, v)" by (cases a)
  show ?case
    unfolding a using TIME_MIN_PRECISION_pos by (auto simp: Cons.IH gap_def)
qed

lemma spacing_invariant_iff:
  "spacing_invariant pts \<longleftrightarrow> sorted_wrt gap pts \<and> (\<forall>q \<in> set pts. 0 \<le> fst q)"
proof (cases pts)
  case Nil
  then show ?thesis by simp
next
  case (Cons a rest)
  obtain t v where a: "a = (t, v)" by (cases a)
  show ?thesis
    unfolding Cons a using TIME_MIN_PRECISION_pos
    by (auto simp: spaced_after_iff gap_def)
qed

lemma sorted_wrt_gap_sorted: "sorted_wrt gap pts \<Longrightarrow> sorted pts"
  by (rule sorted_wrt_mono_rel [of pts gap]) (auto intro: gap_less)

lemma sorted_wrt_gap_insort:
  assumes "sorted_wrt gap xs" and "\<forall>p \<in> set xs. TIME_MIN_PRECISION \<le> \<bar>fst p - fst a\<bar>"
  shows "sorted_wrt gap (insort a xs)"
  using assms
proof (induction xs)
  case Nil
  then show ?case by simp
next
  case (Cons x xs)
  from Cons.prems have sx: "\<forall>y \<in> set xs. gap x y" and sxs: "sorted_wrt gap xs"
    and far: "TIME_MIN_PRECISION \<le> \<bar>fst x - fst a\<bar>"
    and far': "\<forall>p \<in> set xs. TIME_MIN_PRECISION \<le> \<bar>fst p - fst a\<bar>"
    by simp_all
  show ?case
  proof (cases "a \<le> x")
    case True
    then have "fst a \<le> fst x" by (cases a, cases x) (auto simp: less_eq_prod_def)
    with far have ax: "gap a x" by (simp add: gap_def)
    with sx have "\<forall>y \<in> set xs. gap a y" by (blast intro: gap_trans)
    with True ax Cons.prems(1) show ?thesis by simp
  next
    case False
    then have "fst x \<le> fst a" by (cases a, cases x) (auto simp: less_eq_prod_def)
    with far have "gap x a" by (simp add: gap_def)
    with sx have "\<forall>y \<in> set (insort a xs). gap x y" by (simp add: set_insort_key)
    with False Cons.IH [OF sxs far'] show ?thesis by simp
  qed
qed

lemma sort_snoc: "sorted xs \<Longrightarrow> sort (xs @ [a]) = insort a xs"
  by (rule properties_for_sort) (simp_all add: sorted_insort)

lemma delete_at_set: "set (delete_at i xs) \<subseteq> set xs"
  by (auto simp: delete_at_def dest: in_set_takeD in_set_dropD)

lemma sorted_wrt_delete_at: "sorted_wrt P xs \<Longrightarrow> sorted_wrt P (delete_at i xs)"
proof -
  assume s: "sorted_wrt P xs"
  have "sorted_wrt P (take i xs) \<and> sorted_wrt P (drop i xs) \<and>
      (\<forall>x \<in> set (take i xs). \<forall>y \<in> set (drop i xs). P x y)"
    using s sorted_wrt_append [of P "take i xs" "drop i xs"] by (metis append_take_drop_id)
  then have a: "sorted_wrt P (take i xs)"
    and c: "\<forall>x \<in> set (take i xs). \<forall>y \<in> set (drop i xs). P x y"
    by simp_all
  have d: "set (drop (Suc i) xs) \<subseteq> set (drop i xs)"
    by (rule set_drop_subset_set_drop) simp
  from s have "sorted_wrt P (drop (Suc i) xs)" by (rule sorted_wrt_drop)
  with a c d show ?thesis
    unfolding delete_at_def by (auto simp: sorted_wrt_append)
qed

lemma mset_update_delete_at:
  "i < length xs \<Longrightarrow> mset (xs[i := a]) = mset (delete_at i xs) + {#a#}"
  by (simp add: delete_at_def upd_conv_take_nth_drop)

lemma sort_update:
  assumes "sorted xs" and "i < length xs"
  shows "sort (xs[i := a]) = insort a (delete_at i xs)"
proof (rule properties_for_sort)
  show "mset (insort a (delete_at i xs)) = mset (xs[i := a])"
    using assms(2) by (simp add: mset_update_delete_at)
  have "sorted (delete_at i xs)" using assms(1) by (rule sorted_wrt_delete_at)
  then show "sorted (insort a (delete_at i xs))" by (simp add: sorted_insort)
qed

lemma py_index_from_snoc:
  "x \<notin> set xs \<Longrightarrow> py_index_from k (xs @ [x]) x = Some (k + length xs)"
  by (induction xs arbitrary: k) auto

lemma py_index_snoc: "x \<notin> set xs \<Longrightarrow> py_index (xs @ [x]) x = Some (length xs)"
  by (simp add: py_index_def py_index_from_snoc)


lemma delete_at_mem:
  "p \<in> set (delete_at i xs) \<Longrightarrow> \<exists>j < length xs. j \<noteq> i \<and> xs ! j = p"
proof -
  assume "p \<in> set (delete_at i xs)"
  then consider "p \<in> set (take i xs)" | "p \<in> set (drop (Suc i) xs)"
    by (auto simp: delete_at_def)
  then show ?thesis
  proof cases
    case 1
    then obtain j where "j < length (take i xs)" and "take i xs ! j = p"
      by (auto simp: in_set_conv_nth)
    then have "j < length xs \<and> j \<noteq> i \<and> xs ! j = p" by simp
    then show ?thesis by blast
  next
    case 2
    then obtain j where j: "j < length (drop (Suc i) xs)" and "drop (Suc i) xs ! j = p"
      by (auto simp: in_set_conv_nth)
    then have "Suc i + j < length xs \<and> Suc i + j \<noteq> i \<and> xs ! (Suc i + j) = p" by simp
    then show ?thesis by blast
  qed
qed

lemma sorted_wrt_gap_apart:
  assumes "sorted_wrt gap xs" and "i < length xs" and "j < length xs" and "i \<noteq> j"
  shows "TIME_MIN_PRECISION \<le> \<bar>fst (xs ! j) - fst (xs ! i)\<bar>"
proof (cases "i < j")
  case True
  with assms have "gap (xs ! i) (xs ! j)" by (simp add: sorted_wrt_iff_nth_less)
  then show ?thesis by (simp add: gap_def)
next
  case False
  with assms have "j < i" by simp
  with assms have "gap (xs ! j) (xs ! i)" by (simp add: sorted_wrt_iff_nth_less)
  then show ?thesis by (simp add: gap_def)
qed

lemma spacing_invariant_insort:
  assumes "spacing_invariant xs" and "0 \<le> fst a"
    and "\<forall>p \<in> set xs. TIME_MIN_PRECISION \<le> \<bar>fst p - fst a\<bar>"
  shows "spacing_invariant (insort a xs)"
  using assms by (simp add: spacing_invariant_iff sorted_wrt_gap_insort set_insort_key)

lemma spacing_invariant_delete_at:
  "spacing_invariant xs \<Longrightarrow> spacing_invariant (delete_at i xs)"
  using delete_at_set [of i xs] by (auto simp: spacing_invariant_iff sorted_wrt_delete_at)

lemma spacing_invariant_delete_indices:
  "spacing_invariant xs \<Longrightarrow> spacing_invariant (delete_indices indices xs)"
  unfolding delete_indices_def
  by (induction indices arbitrary: xs) (simp_all add: spacing_invariant_delete_at)

lemma add_point_invariant:
  assumes "spacing_invariant (points ed)" and "add_point t v ed = Inr ed'"
  shows "spacing_invariant (points ed')"
proof -
  from assms(2) have t: "0 \<le> t" and nc: "\<not> check_time_conflict (points ed) t None"
    by (auto simp: add_point_def split: if_splits)
  from assms(2) t nc have pts: "points ed' = sort (points ed @ [(t, v)])"
    by (auto simp: add_point_def Let_def split: option.splits)
  from assms(1) have "sorted (points ed)"
    by (simp add: spacing_invariant_iff sorted_wrt_gap_sorted)
  then have eq: "sort (points ed @ [(t, v)]) = insort (t, v) (points ed)" by (rule sort_snoc)
  from nc have "\<forall>p \<in> set (points ed). 2 * TIME_MIN_PRECISION \<le> \<bar>fst p - t\<bar>"
    by (auto simp: check_time_conflict_None not_less)
  with TIME_MIN_PRECISION_pos
  have "\<forall>p \<in> set (points ed). TIME_MIN_PRECISION \<le> \<bar>fst p - fst (t, v)\<bar>" by fastforce
  with assms(1) t show ?thesis
    unfolding pts eq by (intro spacing_invariant_insort) simp_all
qed

lemma update_point_invariant:
  assumes "spacing_invariant (points ed)" and "update_point t v ed = Inr ed'"
  shows "spacing_invariant (points ed')"
proof -
  from assms(2) obtain i where prim: "primary_selected_index ed = Some i"
    by (auto simp: update_point_def split: option.splits)
  from assms(2) prim have t: "0 \<le> t"
    by (auto simp: update_point_def split: if_splits)
  show ?thesis
  proof (cases "i < length (points ed)")
    case False
    with assms(2) prim t have "ed' = ed" by (simp add: update_point_def)
    with assms(1) show ?thesis by simp
  next
    case True
    let ?xs = "points ed"
    from assms(2) prim t True
    have ok: "t = fst (?xs ! i) \<or> \<not> check_time_conflict ?xs t (Some i)"
      by (auto simp: update_point_def Let_def split: if_splits)
    from assms(2) prim t True ok have pts: "points ed' = sort (?xs[i := (t, v)])"
      by (auto simp: update_point_def Let_def split: option.splits if_splits)
    from assms(1) have sg: "sorted_wrt gap ?xs" and srt: "sorted ?xs"
      by (simp_all add: spacing_invariant_iff sorted_wrt_gap_sorted)
    from srt True have eq: "sort (?xs[i := (t, v)]) = insort (t, v) (delete_at i ?xs)"
      by (rule sort_update)
    have far: "\<forall>p \<in> set (delete_at i ?xs). TIME_MIN_PRECISION \<le> \<bar>fst p - fst (t, v)\<bar>"
    proof
      fix p assume "p \<in> set (delete_at i ?xs)"
      from delete_at_mem [OF this] obtain j
        where j: "j < length ?xs" "j \<noteq> i" "?xs ! j = p" by blast
      from ok show "TIME_MIN_PRECISION \<le> \<bar>fst p - fst (t, v)\<bar>"
      proof
        assume "t = fst (?xs ! i)"
        with sorted_wrt_gap_apart [OF sg True j(1)] j show ?thesis by auto
      next
        assume nc: "\<not> check_time_conflict ?xs t (Some i)"
        have "2 * TIME_MIN_PRECISION \<le> \<bar>fst p - t\<bar>"
        proof (rule ccontr)
          assume "\<not> 2 * TIME_MIN_PRECISION \<le> \<bar>fst p - t\<bar>"
          with j have "j < length ?xs \<and> Some i \<noteq> Some j \<and>
              \<bar>fst (?xs ! j) - t\<bar> < 2 * TIME_MIN_PRECISION"
            by simp
          then have "check_time_conflict ?xs t (Some i)"
            unfolding check_time_conflict_iff by blast
          with nc show False ..
        qed
        with TIME_MIN_PRECISION_pos show ?thesis by simp
      qed
    qed
    from assms(1) have "spacing_invariant (delete_at i ?xs)"
      by (rule spacing_invariant_delete_at)
    with t far show ?thesis
      unfolding pts eq by (intro spacing_invariant_insort) simp_all
  qed
qed

lemma delete_point_invariant:
  assumes "spacing_invariant (points ed)" and "delete_point tree_selection ed = Inr ed'"
  shows "spacing_invariant (points ed')"
  using assms
  by (auto simp: delete_point_def Let_def spacing_invariant_delete_indices split: if_splits)

lemma last_time_le:
  assumes "sorted_wrt gap xs" and "p \<in> set xs"
  shows "fst p \<le> fst (last xs)"
proof -
  from assms(2) obtain i where i: "i < length xs" "xs ! i = p"
    by (auto simp: in_set_conv_nth)
  then have ne: "xs \<noteq> []" by auto
  show ?thesis
  proof (cases "i = length xs - 1")
    case True
    with i ne show ?thesis by (simp add: last_conv_nth)
  next
    case False
    with i have "i < length xs - 1" by simp
    moreover from ne have "length xs - 1 < length xs" by simp
    ultimately have "gap (xs ! i) (xs ! (length xs - 1))"
      using assms(1) by (rule sorted_wrt_nth_less [rotated])
    with i ne TIME_MIN_PRECISION_pos show ?thesis by (simp add: gap_def last_conv_nth)
  qed
qed

lemma quick_add_sorted_wrt:
  assumes "spacing_invariant xs" and "xs \<noteq> []"
  shows "spacing_invariant (xs @ [(fst (last xs) + 1 / 10 ^ 3, w)])"
    and "(fst (last xs) + 1 / 10 ^ 3, w) \<notin> set xs"
proof -
  from assms(1) have sg: "sorted_wrt gap xs" and nn: "\<forall>q \<in> set xs. 0 \<le> fst q"
    by (simp_all add: spacing_invariant_iff)
  have le: "\<forall>p \<in> set xs. fst p \<le> fst (last xs)"
    using last_time_le [OF sg] by blast
  then have "\<forall>p \<in> set xs. gap p (fst (last xs) + 1 / 10 ^ 3, w)"
    by (auto simp: gap_def TIME_MIN_PRECISION_def intro: order_trans)
  moreover from assms(2) nn have "0 \<le> fst (last xs)" by simp
  ultimately show "spacing_invariant (xs @ [(fst (last xs) + 1 / 10 ^ 3, w)])"
    using sg nn by (simp add: spacing_invariant_iff sorted_wrt_append)
  show "(fst (last xs) + 1 / 10 ^ 3, w) \<notin> set xs"
    using le by fastforce
qed

subsection \<open>\<open>quick_add_point\<close>\<close>

text \<open>
  Claim C10. On an empty waveform quick-add stores the single point \<open>(0, 0)\<close> and
  makes index 0 the sole selected and the primary point. On a non-empty waveform it
  adds \<open>(last_time + 1e-3, 0)\<close>, where \<open>last_time\<close> is the time of the last stored
  point, sorts, and selects the position of the new point; when the store satisfies
  the spacing invariant the new point stays at the end.
\<close>

theorem quick_add_point_outcome:
  "(points ed = [] \<longrightarrow>
      quick_add_point ed =
        Inr (ed\<lparr>points := [(0, 0)], primary_selected_index := Some 0,
                selected_indices := {0}\<rparr>)) \<and>
   (points ed \<noteq> [] \<longrightarrow>
      (\<exists>idx. quick_add_point ed =
          Inr (ed\<lparr>points := sort (points ed @ [(fst (last (points ed)) + 1 / 10 ^ 3, 0)]),
                  primary_selected_index := Some idx, selected_indices := {idx}\<rparr>) \<and>
        idx \<le> length (points ed) \<and>
        sort (points ed @ [(fst (last (points ed)) + 1 / 10 ^ 3, 0)]) ! idx =
          (fst (last (points ed)) + 1 / 10 ^ 3, 0))) \<and>
   (points ed \<noteq> [] \<and> spacing_invariant (points ed) \<longrightarrow>
      quick_add_point ed =
        Inr (ed\<lparr>points := points ed @ [(fst (last (points ed)) + 1 / 10 ^ 3, 0)],
                primary_selected_index := Some (length (points ed)),
                selected_indices := {length (points ed)}\<rparr>))"
proof (intro conjI impI)
  assume "points ed = []"
  then show "quick_add_point ed =
        Inr (ed\<lparr>points := [(0, 0)], primary_selected_index := Some 0,
                selected_indices := {0}\<rparr>)"
    by (simp add: quick_add_point_def py_index_def)
next
  assume ne: "points ed \<noteq> []"
  let ?new = "(fst (last (points ed)) + 1 / 10 ^ 3, 0 :: real)"
  let ?pts = "sort (points ed @ [?new])"
  have "?new \<in> set ?pts" by simp
  from py_index_mem [OF this] obtain i where i: "py_index ?pts ?new = Some i" ..
  from py_index_Some [OF i] have "i \<le> length (points ed)" and "?pts ! i = ?new"
    by simp_all
  moreover from ne i have "quick_add_point ed =
      Inr (ed\<lparr>points := ?pts, primary_selected_index := Some i, selected_indices := {i}\<rparr>)"
    by (simp add: quick_add_point_def Let_def)
  ultimately show "\<exists>idx. quick_add_point ed =
          Inr (ed\<lparr>points := ?pts, primary_selected_index := Some idx,
                  selected_indices := {idx}\<rparr>) \<and>
        idx \<le> length (points ed) \<and> ?pts ! idx = ?new"
    by blast
next
  assume h: "points ed \<noteq> [] \<and> spacing_invariant (points ed)"
  let ?new = "(fst (last (points ed)) + 1 / 10 ^ 3, 0 :: real)"
  from h quick_add_sorted_wrt [of "points ed" 0]
  have inv: "spacing_invariant (points ed @ [?new])" and fresh: "?new \<notin> set (points ed)"
    by simp_all
  from inv have "sorted (points ed @ [?new])"
    by (simp add: spacing_invariant_iff sorted_wrt_gap_sorted)
  then have "sort (points ed @ [?new]) = points ed @ [?new]" by (rule sorted_sort_id)
  with h py_index_snoc [OF fresh] show "quick_add_point ed =
        Inr (ed\<lparr>points := points ed @ [?new],
                primary_selected_index := Some (length (points ed)),
                selected_indices := {length (points ed)}\<rparr>)"
    by (simp add: quick_add_point_def Let_def)
qed

theorem quick_add_point_outcome_witness:
  "quick_add_point (idle_editor []) =
     Inr ((idle_editor [])\<lparr>points := [(0, 0)], primary_selected_index := Some 0,
            selected_indices := {0}\<rparr>) \<and>
   quick_add_point (idle_editor [(0, 0), (1, 1)]) =
     Inr ((idle_editor [(0, 0), (1, 1)])\<lparr>points := [(0, 0), (1, 1), (1 + 1 / 10 ^ 3, 0)],
            primary_selected_index := Some 2, selected_indices := {2}\<rparr>)"
proof -
  have a: "points (idle_editor []) = []" by (simp add: idle_editor_def)
  have b: "points (idle_editor [(0, 0), (1, 1)]) \<noteq> [] \<and>
      spacing_invariant (points (idle_editor [(0, 0), (1, 1)]))"
    by (simp add: idle_editor_def TIME_MIN_PRECISION_def)
  from a quick_add_point_outcome [of "idle_editor []"]
  have c: "quick_add_point (idle_editor []) =
     Inr ((idle_editor [])\<lparr>points := [(0, 0)], primary_selected_index := Some 0,
            selected_indices := {0}\<rparr>)"
    by blast
  from b quick_add_point_outcome [of "idle_editor [(0, 0), (1, 1)]"]
  have "quick_add_point (idle_editor [(0, 0), (1, 1)]) =
     Inr ((idle_editor [(0, 0), (1, 1)])\<lparr>points :=
            points (idle_editor [(0, 0), (1, 1)]) @
              [(fst (last (points (idle_editor [(0, 0), (1, 1)]))) + 1 / 10 ^ 3, 0)],
            primary_selected_index := Some (length (points (idle_editor [(0, 0), (1, 1)]))),
            selected_indices := {length (points (idle_editor [(0, 0), (1, 1)]))}\<rparr>)"
    by blast
  then have d: "quick_add_point (idle_editor [(0, 0), (1, 1)]) =
     Inr ((idle_editor [(0, 0), (1, 1)])\<lparr>points := [(0, 0), (1, 1), (1 + 1 / 10 ^ 3, 0)],
            primary_selected_index := Some 2, selected_indices := {2}\<rparr>)"
    by (simp add: idle_editor_def)
  from c d show ?thesis by simp
qed

subsection \<open>Drag release\<close>

text \<open>
  Claim C2. The store is \<open>[(0,0), (2e-12,0)]\<close>, point 0 is selected and dragged, and the
  motion handler has written its proposed time \<open>1.5e-12\<close> into the store. On release
  the time is quantised to \<open>round(1.5) \<times> 1e-12 = 2e-12\<close> (the tie goes to the even
  integer), the corridor below the neighbour at \<open>2e-12\<close> clamps it to \<open>1e-12\<close>, and the
  sort leaves the dragged point at index 0 with time exactly \<open>1e-12\<close> and the other
  point at \<open>2e-12\<close>; index 0 stays selected.
\<close>

theorem drag_release_example:
  "points (drag_motion (15 / 10 ^ 13) 0 drag_example) =
     [(15 / 10 ^ 13, 0), (2 / 10 ^ 12, 0)] \<and>
   quantize_dragged DEFAULT_DRAG_PRECISION [0] [(15 / 10 ^ 13, 0), (2 / 10 ^ 12, 0)] =
     [(2 / 10 ^ 12, 0), (2 / 10 ^ 12, 0)] \<and>
   enforce_min_dt_for_drag [0] [(2 / 10 ^ 12, 0), (2 / 10 ^ 12, 0)] =
     [(1 / 10 ^ 12, 0), (2 / 10 ^ 12, 0)] \<and>
   points (drag_release set_last (drag_motion (15 / 10 ^ 13) 0 drag_example)) =
     [(1 / 10 ^ 12, 0), (2 / 10 ^ 12, 0)] \<and>
   selected_indices (drag_release set_last (drag_motion (15 / 10 ^ 13) 0 drag_example)) = {0}"
  by code_simp

section \<open>Properties of the render pipeline\<close>

subsection \<open>Placement-preview decimation\<close>

text \<open>
  The decimated list holds at most one point more than the cap, every kept point
  after the first is at least one pixel step from the point kept before it, and a
  line whose successive points are all a step apart is cut after \<open>cap + 1\<close> points.
\<close>

lemma decimate_loop_length:
  "length decimated \<le> max_preview_points c \<Longrightarrow>
   length (decimate_loop c line decimated last_sx) \<le> max_preview_points c + 1"
proof (induction line arbitrary: decimated last_sx)
  case Nil
  then show ?case by simp
next
  case (Cons p line)
  obtain t v where p: "p = (t, v)" by (cases p)
  obtain sx sy where w: "world_to_screen c t v = (sx, sy)" by (cases "world_to_screen c t v")
  show ?case
    unfolding p using Cons.prems Cons.IH
    by (auto simp: w Let_def not_less)
qed

lemma decimate_preview_length: "length (decimate_preview c line) \<le> max_preview_points c + 1"
  unfolding decimate_preview_def by (rule decimate_loop_length) simp

lemma decimate_loop_all_kept:
  assumes "successively (far c) (q # line)" and "last_sx = Some (screen_x c q)"
    and "length decimated \<le> max_preview_points c"
  shows "decimate_loop c line decimated last_sx =
     take (max_preview_points c + 1) (decimated @ line)"
  using assms
proof (induction line arbitrary: q decimated last_sx)
  case Nil
  then show ?case by simp
next
  case (Cons p line)
  obtain t v where p: "p = (t, v)" by (cases p)
  obtain sx sy where w: "world_to_screen c t v = (sx, sy)" by (cases "world_to_screen c t v")
  from w p have sx: "screen_x c p = sx" by (simp add: screen_x_def)
  from Cons.prems(1) have fqp: "far c q p" and rest: "successively (far c) (p # line)"
    by simp_all
  from fqp Cons.prems(2) sx have keep: "of_int (max 1 (lod_pixel_step c)) \<le> \<bar>sx - the last_sx\<bar>"
    by (simp add: far_def)
  show ?case
  proof (cases "max_preview_points c < length (decimated @ [p])")
    case True
    with Cons.prems(3) have "length decimated = max_preview_points c" by simp
    then have "take (max_preview_points c + 1) (decimated @ p # line) = decimated @ [p]"
      by simp
    with True keep Cons.prems(2) show ?thesis
      unfolding p by (simp add: w Let_def)
  next
    case False
    then have len: "length (decimated @ [p]) \<le> max_preview_points c" by simp
    from Cons.IH [OF rest _ len, of "Some sx"] sx
    have "decimate_loop c line (decimated @ [p]) (Some sx) =
        take (max_preview_points c + 1) ((decimated @ [p]) @ line)"
      by simp
    with False keep Cons.prems(2) show ?thesis
      unfolding p by (simp add: w Let_def)
  qed
qed

lemma decimate_preview_all_kept:
  assumes "successively (far c) line"
  shows "decimate_preview c line = take (max_preview_points c + 1) line"
proof (cases line)
  case Nil
  then show ?thesis by (simp add: decimate_preview_def)
next
  case (Cons p rest)
  obtain t v where p: "p = (t, v)" by (cases p)
  obtain sx sy where w: "world_to_screen c t v = (sx, sy)" by (cases "world_to_screen c t v")
  from w p have sx: "screen_x c p = sx" by (simp add: screen_x_def)
  show ?thesis
  proof (cases "max_preview_points c = 0")
    case True
    then show ?thesis unfolding Cons p decimate_preview_def by (simp add: w Let_def)
  next
    case False
    then have len: "length [p] \<le> max_preview_points c" by simp
    from assms Cons have "successively (far c) (p # rest)" by simp
    from decimate_loop_all_kept [OF this _ len, of "Some sx"] sx
    have "decimate_loop c rest [p] (Some sx) = take (max_preview_points c + 1) ([p] @ rest)"
      by simp
    with False show ?thesis unfolding Cons p decimate_preview_def by (simp add: w Let_def)
  qed
qed

lemma decimate_loop_far:
  assumes "successively (far c) decimated"
    and "(decimated = [] \<and> last_sx = None) \<or>
         (decimated \<noteq> [] \<and> last_sx = Some (screen_x c (last decimated)))"
  shows "successively (far c) (decimate_loop c line decimated last_sx)"
  using assms
proof (induction line arbitrary: decimated last_sx)
  case Nil
  then show ?case by simp
next
  case (Cons p line)
  obtain t v where p: "p = (t, v)" by (cases p)
  obtain sx sy where w: "world_to_screen c t v = (sx, sy)" by (cases "world_to_screen c t v")
  from w p have sx: "screen_x c p = sx" by (simp add: screen_x_def)
  let ?keep = "case last_sx of None \<Rightarrow> True
     | Some l \<Rightarrow> of_int (max 1 (lod_pixel_step c)) \<le> \<bar>sx - l\<bar>"
  show ?case
  proof (cases ?keep)
    case False
    then have step: "decimate_loop c (p # line) decimated last_sx =
        (if max_preview_points c < length decimated then decimated
         else decimate_loop c line decimated last_sx)"
      unfolding p by (simp add: w Let_def)
    from Cons.IH [OF Cons.prems] Cons.prems(1) show ?thesis
      unfolding step by simp
  next
    case True
    then have step: "decimate_loop c (p # line) decimated last_sx =
        (if max_preview_points c < length (decimated @ [p]) then decimated @ [p]
         else decimate_loop c line (decimated @ [p]) (Some sx))"
      unfolding p by (simp add: w Let_def)
    have ok: "successively (far c) (decimated @ [p])"
    proof (cases "decimated = []")
      case True
      then show ?thesis by simp
    next
      case False
      with Cons.prems(2) have "last_sx = Some (screen_x c (last decimated))" by simp
      with True sx have "far c (last decimated) p" by (simp add: far_def)
      with Cons.prems(1) False show ?thesis by (simp add: successively_append_iff)
    qed
    have "(decimated @ [p] = [] \<and> Some sx = None) \<or>
        (decimated @ [p] \<noteq> [] \<and> Some sx = Some (screen_x c (last (decimated @ [p]))))"
      using sx by simp
    from Cons.IH [OF ok this] ok show ?thesis
      unfolding step by simp
  qed
qed

lemma decimate_preview_far: "successively (far c) (decimate_preview c line)"
  unfolding decimate_preview_def by (rule decimate_loop_far) simp_all

lemma screen_x_default: "screen_x example_canvas (x, y) = 60 + x * 1000"
  by (simp add: screen_x_def world_to_screen_def example_canvas_def Let_def
      margin_left_def margin_right_def margin_top_def margin_bottom_def)

lemma lod_step_default: "max 1 (lod_pixel_step example_canvas) = 2"
  by (simp add: example_canvas_def)

lemma dense_far: "successively (far example_canvas) dense_line"
  unfolding dense_line_def successively_conv_nth
  by (simp add: far_def screen_x_default lod_step_default add_divide_distrib)

text \<open>
  Claim C9. The decimation keeps a point only if it is a pixel step away from the
  last kept point (\<open>decimate_preview_far\<close>), but the loop leaves only once the list is
  longer than the cap: on the example canvas, with the cap 3000, a preview line of
  4000 points 2 pixels apart is decimated to 3001 points.
\<close>

theorem decimate_preview_exceeds_cap:
  "max_preview_points example_canvas = 3000 \<and>
   length (decimate_preview example_canvas dense_line) = 3001"
proof -
  have "decimate_preview example_canvas dense_line = take (3000 + 1) dense_line"
    using decimate_preview_all_kept [OF dense_far] by (simp add: example_canvas_def)
  then show ?thesis by (simp add: dense_line_def example_canvas_def)
qed


subsection \<open>Fit to view\<close>











section \<open>Properties of the file load\<close>



lemma get_points_contains: "get_points data = Some ps \<Longrightarrow> contains_points data = Some True"
  by (cases data) simp_all






lemma file_unsorted_tuples:
  "get_points file_unsorted = Some (JArr [JArr [JFloat 1, JFloat 0], JArr [JFloat 0, JFloat 0]])"
  "file_tuples (JArr [JArr [JFloat 1, JFloat 0], JArr [JFloat 0, JFloat 0]]) =
     Some [[JFloat 1, JFloat 0], [JFloat 0, JFloat 0]]"
  "as_points [[JFloat 1, JFloat 0], [JFloat 0, JFloat 0]] =
     Some [(PFloat 1, PFloat 0), (PFloat 0, PFloat 0)]"
  "\<not> fit_overflows [(PFloat 1, PFloat 0), (PFloat 0, PFloat 0)]"
  by (simp_all add: file_unsorted_def file_tuples_def as_points_def fit_overflows_def
      range_overflows_def py_min_def py_max_def)

lemma file_unsorted_loads:
  "load_waveform_from_file file_unsorted st =
     (None, st\<lparr>raw_points := [[JFloat 1, JFloat 0], [JFloat 0, JFloat 0]],
               view := zoom_to_all_points [(1, 0), (0, 0)] (view st)\<rparr>)"
  using file_unsorted_tuples get_points_contains [OF file_unsorted_tuples(1)]
  by (simp add: load_waveform_from_file_def point_of_def)





section \<open>The spacing invariant over the store operations\<close>

text \<open>
  The invariant in the words of the specification: the first time is not negative,
  and each time is at least \<open>TIME_MIN_PRECISION\<close> after the one before it.
\<close>

lemma spaced_after_successively:
  "spaced_after p pts \<longleftrightarrow> successively gap ((p, w) # pts)"
proof (induction pts arbitrary: p w)
  case Nil
  then show ?case by simp
next
  case (Cons a pts)
  obtain t v where a: "a = (t, v)" by (cases a)
  show ?case unfolding a using Cons.IH [of t v] by (simp add: gap_def)
qed

lemma spacing_invariant_nth:
  "spacing_invariant pts \<longleftrightarrow>
     (pts \<noteq> [] \<longrightarrow> 0 \<le> fst (pts ! 0)) \<and>
     (\<forall>i. Suc i < length pts \<longrightarrow> TIME_MIN_PRECISION \<le> fst (pts ! Suc i) - fst (pts ! i))"
proof (cases pts)
  case Nil
  then show ?thesis by simp
next
  case (Cons a rest)
  obtain t v where a: "a = (t, v)" by (cases a)
  have "spacing_invariant pts \<longleftrightarrow> 0 \<le> t \<and> successively gap pts"
    unfolding Cons a using spaced_after_successively [of t rest v] by simp
  then show ?thesis
    unfolding successively_conv_nth gap_def by (simp add: Cons a)
qed

lemma add_point_selected_example: "add_point (1 / 2) 0 selected_example =
     Inr (selected_example\<lparr>points := [(0, 0), (1 / 2, 0), (1, 1)],
            primary_selected_index := Some 1, selected_indices := {1}\<rparr>)"
  by (simp add: add_point_def selected_example_def idle_editor_def check_time_conflict_def
      TIME_MIN_PRECISION_def py_index_def less_eq_prod_def)

lemma update_point_selected_example: "update_point 2 5 selected_example =
     Inr (selected_example\<lparr>points := [(0, 0), (2, 5)],
            primary_selected_index := Some 1, selected_indices := {1}\<rparr>)"
  by (simp add: update_point_def selected_example_def idle_editor_def check_time_conflict_def
      TIME_MIN_PRECISION_def py_index_def less_eq_prod_def)

lemma delete_point_selected_example: "delete_point {} selected_example =
     Inr (selected_example\<lparr>points := [(0, 0)],
            selected_indices := {}, primary_selected_index := None\<rparr>)"
  by (simp add: delete_point_def selected_example_def idle_editor_def delete_indices_def delete_at_def)


text \<open>
  Claim C1, as the code has it. Starting from a store that satisfies the spacing
  invariant (the first time is at least 0 and successive times are at least
  \<open>TIME_MIN_PRECISION\<close> apart), a successful \<open>addPoint\<close>, \<open>updatePoint\<close> or
  \<open>deletePoints\<close> leaves a store that satisfies it: the first two accept a time
  (a real number here, so neither an infinity nor NaN) only when it is not negative
  and passes the conflict check against the stored times, and the third only
  removes points. The other operations of the claim's list
  are not part of the statement. Placement commit and file load store their points
  without calling \<open>ensureMinSpacing\<close> (only the preview line passes through it), and
  drag release can close a gap. Quick add and \<open>ensureMinSpacing\<close> obtain a time
  from a sum, \<open>last_time + 1e-3\<close> and \<open>prev_t + TIME_MIN_PRECISION\<close>; the sum is
  exact in this model and rounded in the program, so the gap that the model finds
  behind it says nothing about stores with large times.
\<close>

theorem store_operations_spacing:
  "spacing_invariant (points ed) \<longrightarrow>
     (add_point t v ed = Inr ed1 \<longrightarrow> spacing_invariant (points ed1)) \<and>
     (update_point new_time new_value ed = Inr ed2 \<longrightarrow> spacing_invariant (points ed2)) \<and>
     (delete_point tree_selection ed = Inr ed3 \<longrightarrow> spacing_invariant (points ed3))"
  using add_point_invariant update_point_invariant delete_point_invariant
  by blast

theorem store_operations_spacing_witness:
  "spacing_invariant (points selected_example) \<and>
   add_point (1 / 2) 0 selected_example =
     Inr (selected_example\<lparr>points := [(0, 0), (1 / 2, 0), (1, 1)],
            primary_selected_index := Some 1, selected_indices := {1}\<rparr>) \<and>
   spacing_invariant [(0, 0), (1 / 2, 0), (1, 1)] \<and>
   update_point 2 5 selected_example =
     Inr (selected_example\<lparr>points := [(0, 0), (2, 5)],
            primary_selected_index := Some 1, selected_indices := {1}\<rparr>) \<and>
   spacing_invariant [(0, 0), (2, 5)] \<and>
   delete_point {} selected_example =
     Inr (selected_example\<lparr>points := [(0, 0)],
            selected_indices := {}, primary_selected_index := None\<rparr>) \<and>
   spacing_invariant [(0, 0)]"
proof -
  have inv: "spacing_invariant (points selected_example)"
    by (simp add: selected_example_def idle_editor_def TIME_MIN_PRECISION_def)
  from store_operations_spacing [where ed = selected_example and t = "1 / 2" and v = 0
      and new_time = 2 and new_value = 5 and tree_selection = "{}"
      and ?ed1.0 = "selected_example\<lparr>points := [(0, 0), (1 / 2, 0), (1, 1)],
            primary_selected_index := Some 1, selected_indices := {1}\<rparr>"
      and ?ed2.0 = "selected_example\<lparr>points := [(0, 0), (2, 5)],
            primary_selected_index := Some 1, selected_indices := {1}\<rparr>"
      and ?ed3.0 = "selected_example\<lparr>points := [(0, 0)],
            selected_indices := {}, primary_selected_index := None\<rparr>"]
    inv add_point_selected_example update_point_selected_example
    delete_point_selected_example
  show ?thesis by simp
qed

text \<open>
  Three operations of the claim's list break the invariant on a store that satisfies
  it. Placement commit puts \<open>(0, 1)\<close> at the time of the stored \<open>(0, 0)\<close>. File load
  stores the file's points as they come, here in descending order. Drag release
  squeezes two dragged points into the gap between \<open>0\<close> and \<open>2e-12\<close>, which has room
  for one: the second is pushed one step past the first and lands on the wall at
  \<open>2e-12\<close>.
\<close>

theorem store_operations_spacing_counterexample:
  "spacing_invariant (points placement_example) \<and>
   points (handle_placement_commit Max 0 placement_example) = [(0, 0), (0, 1)] \<and>
   \<not> spacing_invariant (points (handle_placement_commit Max 0 placement_example)) \<and>
   fst (load_waveform_from_file file_unsorted (stored_state [(0, 0)] example_canvas)) = None \<and>
   map_option (map point_of)
     (as_points (raw_points (snd (load_waveform_from_file file_unsorted
       (stored_state [(0, 0)] example_canvas))))) = Some [(1, 0), (0, 0)] \<and>
   \<not> spacing_invariant [(1, 0), (0, 0)] \<and>
   spacing_invariant (points squeeze_example) \<and>
   points (drag_release Max (drag_motion (1 / 10 ^ 12) 0 squeeze_example)) =
     [(0, 0), (1 / 10 ^ 12, 0), (2 / 10 ^ 12, 0), (2 / 10 ^ 12, 0)] \<and>
   \<not> spacing_invariant (points (drag_release Max (drag_motion (1 / 10 ^ 12) 0 squeeze_example)))"
proof (intro conjI)
  show "spacing_invariant (points placement_example)"
    by (simp add: placement_example_def idle_editor_def)
  show p: "points (handle_placement_commit Max 0 placement_example) = [(0, 0), (0, 1)]"
    by code_simp
  show "\<not> spacing_invariant (points (handle_placement_commit Max 0 placement_example))"
    unfolding p by (simp add: TIME_MIN_PRECISION_def)
  show "fst (load_waveform_from_file file_unsorted (stored_state [(0, 0)] example_canvas)) = None"
    by (simp add: file_unsorted_loads)
  show "map_option (map point_of)
     (as_points (raw_points (snd (load_waveform_from_file file_unsorted
       (stored_state [(0, 0)] example_canvas))))) = Some [(1, 0), (0, 0)]"
    by (simp add: file_unsorted_loads file_unsorted_tuples point_of_def)
  show "\<not> spacing_invariant [(1, 0), (0, 0)]"
    by (simp add: TIME_MIN_PRECISION_def)
  show "spacing_invariant (points squeeze_example)"
    by (simp add: squeeze_example_def idle_editor_def TIME_MIN_PRECISION_def)
  show d: "points (drag_release Max (drag_motion (1 / 10 ^ 12) 0 squeeze_example)) =
     [(0, 0), (1 / 10 ^ 12, 0), (2 / 10 ^ 12, 0), (2 / 10 ^ 12, 0)]"
    by code_simp
  show "\<not> spacing_invariant (points (drag_release Max (drag_motion (1 / 10 ^ 12) 0 squeeze_example)))"
    unfolding d by (simp add: TIME_MIN_PRECISION_def)
qed

section \<open>Properties of the waveform generator\<close>

text \<open>
  The period that the generator settles on is positive, so each loop passes the
  duration after finitely many rounds: the generator returns for every argument.
\<close>

lemma steps_left:
  fixes period :: real
  assumes "0 < period" and "t < bound"
  shows "nat \<lceil>(bound - (t + period)) / period\<rceil> < nat \<lceil>(bound - t) / period\<rceil>"
proof -
  have "(bound - (t + period)) / period = (bound - t) / period - 1"
    using assms(1) by (simp add: field_simps)
  then have "\<lceil>(bound - (t + period)) / period\<rceil> = \<lceil>(bound - t) / period\<rceil> - 1" by simp
  moreover from assms have "0 < (bound - t) / period" by simp
  then have "0 < \<lceil>(bound - t) / period\<rceil>" by simp
  ultimately show ?thesis by simp
qed

lemma square_loop_returns:
  assumes "0 < period"
  shows "\<exists>r. square_loop period tr tf t_high amp offset duration t pts = Some r"
proof (induction "nat \<lceil>(duration - 1 / 10 ^ 15 - t) / period\<rceil>" arbitrary: t pts rule: less_induct)
  case less
  show ?case
  proof (cases "t < duration - 1 / 10 ^ 15")
    case False
    then show ?thesis by (simp add: square_loop.simps [of _ _ _ _ _ _ _ t])
  next
    case True
    from steps_left [OF assms True]
    have "\<And>pts'. \<exists>r. square_loop period tr tf t_high amp offset duration (t + period) pts' = Some r"
      by (rule less.hyps)
    with True show ?thesis
      by (subst square_loop.simps) (simp add: Let_def)
  qed
qed

lemma triangle_loop_returns:
  assumes "0 < period"
  shows "\<exists>r. triangle_loop period t_rise amp offset duration t pts = Some r"
proof (induction "nat \<lceil>(duration - 1 / 10 ^ 15 - t) / period\<rceil>" arbitrary: t pts rule: less_induct)
  case less
  show ?case
  proof (cases "t < duration - 1 / 10 ^ 15")
    case False
    then show ?thesis by (simp add: triangle_loop.simps [of _ _ _ _ _ t])
  next
    case True
    from steps_left [OF assms True]
    have "\<And>pts'. \<exists>r. triangle_loop period t_rise amp offset duration (t + period) pts' = Some r"
      by (rule less.hyps)
    with True show ?thesis
      by (subst triangle_loop.simps) (simp add: Let_def)
  qed
qed

lemma sine_loop_returns:
  assumes "0 < dt"
  shows "\<exists>r. sine_loop period amp offset duration dt t pts = Some r"
proof (induction "nat (\<lfloor>(duration + 1 / 10 ^ 15 - t) / dt\<rfloor> + 1)" arbitrary: t pts rule: less_induct)
  case less
  show ?case
  proof (cases "t \<le> duration + 1 / 10 ^ 15")
    case False
    then show ?thesis by (simp add: sine_loop.simps [of _ _ _ _ _ t])
  next
    case True
    have "(duration + 1 / 10 ^ 15 - (t + dt)) / dt = (duration + 1 / 10 ^ 15 - t) / dt - 1"
      using assms by (simp add: field_simps)
    then have "\<lfloor>(duration + 1 / 10 ^ 15 - (t + dt)) / dt\<rfloor> =
        \<lfloor>(duration + 1 / 10 ^ 15 - t) / dt\<rfloor> - 1"
      by simp
    moreover from True assms have "0 \<le> (duration + 1 / 10 ^ 15 - t) / dt" by simp
    then have "0 \<le> \<lfloor>(duration + 1 / 10 ^ 15 - t) / dt\<rfloor>" by simp
    ultimately have "nat (\<lfloor>(duration + 1 / 10 ^ 15 - (t + dt)) / dt\<rfloor> + 1) <
        nat (\<lfloor>(duration + 1 / 10 ^ 15 - t) / dt\<rfloor> + 1)"
      by simp
    then have "\<And>pts'. \<exists>r. sine_loop period amp offset duration dt (t + dt) pts' = Some r"
      by (rule less.hyps)
    with True show ?thesis
      by (subst sine_loop.simps) simp
  qed
qed

lemma resolved_period_pos:
  "0 < (if none_or (\<lambda>x. x \<le> 0) per then
          1 / (if none_or (\<lambda>x. x \<le> 0) fr then 1 / 10 ^ 9 else the fr)
        else the per :: real)"
  by (cases per; cases fr) (auto simp: none_or_def)

lemma wave_params_to_points_returns: "wave_params_to_points wave_type p \<noteq> None"
proof -
  define period where "period =
     (if none_or (\<lambda>x. x \<le> 0) (p_period p) then
        1 / (if none_or (\<lambda>x. x \<le> 0) (p_freq p) then 1 / 10 ^ 9 else the (p_freq p))
      else the (p_period p))"
  have pos: "0 < period" unfolding period_def by (rule resolved_period_pos)
  have "0 < (if none_or (\<lambda>x. x < 4) (p_ppc p) then 50 else the (p_ppc p))"
    by (cases "p_ppc p") (auto simp: none_or_def)
  with pos have dt: "0 < period / (if none_or (\<lambda>x. x < 4) (p_ppc p) then 50 else the (p_ppc p))"
    by simp
  have sq: "\<And>tr tf t_high amp offset duration.
      square_loop period tr tf t_high amp offset duration 0 [] \<noteq> None"
    using square_loop_returns [OF pos] by (metis option.distinct(1))
  have tri: "\<And>t_rise amp offset duration.
      triangle_loop period t_rise amp offset duration 0 [] \<noteq> None"
    using triangle_loop_returns [OF pos] by (metis option.distinct(1))
  have si: "\<And>amp offset duration.
      sine_loop period amp offset duration
        (period / (if none_or (\<lambda>x. x < 4) (p_ppc p) then 50 else the (p_ppc p))) 0 [] \<noteq> None"
    using sine_loop_returns [OF dt] by (metis option.distinct(1))
  show ?thesis
    unfolding wave_params_to_points_def Let_def split_def
    unfolding period_def [symmetric]
    by (simp only: option.map_disc_iff sq tri si option.distinct simp_thms split: if_split)
qed

text \<open>
  Claim C8. For the square wave with \<open>period = 1e-6\<close>, \<open>t_high = 2e-7\<close>,
  \<open>tr = tf = 1e-8\<close> and \<open>duration = 1e-6\<close> the generator returns four points, one of
  them at time \<open>2e-7\<close>, where the fall from high to low starts; so some time sample is
  within \<open>1e-10\<close> of \<open>2e-7\<close>. For the triangle wave with \<open>period = 1e-6\<close>,
  \<open>t_rise = 3e-7\<close> and \<open>duration = 1e-6\<close> it returns three points, and the one with
  the peak value \<open>offset + amp = 1\<close> is at time \<open>3e-7\<close>, within \<open>1e-10\<close> of \<open>3e-7\<close>.
\<close>

theorem wave_generator_boundaries:
  "wave_params_to_points ''square'' square_example =
     Some [(0, - 1), (1 / 10 ^ 8, 1), (2 / 10 ^ 7, 1), (21 / 10 ^ 8, - 1)] \<and>
   \<bar>fst ([(0, - 1), (1 / 10 ^ 8, 1), (2 / 10 ^ 7, 1), (21 / 10 ^ 8, - 1 :: real)] ! 2)
      - 2 / 10 ^ 7\<bar> < (1 / 10 ^ 10 :: real) \<and>
   wave_params_to_points ''triangle'' triangle_example =
     Some [(0, - 1), (3 / 10 ^ 7, 1), (1 / 10 ^ 6, - 1)] \<and>
   snd ([(0, - 1), (3 / 10 ^ 7, 1), (1 / 10 ^ 6, - 1 :: real)] ! 1) = (1 :: real) \<and>
   \<bar>fst ([(0, - 1), (3 / 10 ^ 7, 1), (1 / 10 ^ 6, - 1 :: real)] ! 1) - 3 / 10 ^ 7\<bar>
      < (1 / 10 ^ 10 :: real)"
proof (intro conjI)
  show "wave_params_to_points ''square'' square_example =
     Some [(0, - 1), (1 / 10 ^ 8, 1), (2 / 10 ^ 7, 1), (21 / 10 ^ 8, - 1)]"
    by code_simp
  show "wave_params_to_points ''triangle'' triangle_example =
     Some [(0, - 1), (3 / 10 ^ 7, 1), (1 / 10 ^ 6, - 1)]"
    by code_simp
qed simp_all

section \<open>Properties of the numeric codec\<close>

subsection \<open>Digits, stripping and rounding\<close>

lemma digit_cases:
  assumes "0 \<le> d" and "d < 10"
  shows "d = 0 \<or> d = 1 \<or> d = 2 \<or> d = 3 \<or> d = 4 \<or> d = 5 \<or> d = 6 \<or> d = 7 \<or> d = 8 \<or> d = (9 :: int)"
  using assms by arith

lemma digit_char_props:
  assumes "0 \<le> d" and "d < 10"
  shows "is_digit (digit_char d)" and "digit_val (digit_char d) = d"
  using digit_cases [OF assms]
  by (auto simp: is_digit_def digit_char_def digit_val_def digit_chars_def py_index_def)

lemma is_digit_not_special:
  assumes "is_digit c"
  shows "c \<noteq> CHR ''.''" and "c \<noteq> CHR ''-''" and "c \<noteq> CHR ''+''"
    and "\<not> is_exp_char c" and "\<not> is_space c"
    and "c \<notin> set ''pnumkMG''"
    and "\<not> is_float_space c" and "c \<noteq> CHR ''_''"
  using assms
  by (auto simp: is_digit_def digit_chars_def is_exp_char_def is_space_def is_float_space_def)

lemma nat_of_digits_snoc: "nat_of_digits (ds @ [c]) = nat_of_digits ds * 10 + digit_val c"
  by (simp add: nat_of_digits_def)

lemma show_nat_props:
  "0 \<le> n \<Longrightarrow> show_nat n \<noteq> [] \<and> list_all is_digit (show_nat n) \<and> nat_of_digits (show_nat n) = n"
proof (induction n rule: show_nat.induct)
  case (1 n)
  show ?case
  proof (cases "n < 10")
    case True
    with "1.prems" digit_char_props [of n] show ?thesis
      by (simp add: show_nat.simps [of n] nat_of_digits_def)
  next
    case False
    from "1.prems" have d: "0 \<le> n mod 10" "n mod 10 < 10" by simp_all
    from "1.prems" False have "0 \<le> n div 10" by simp
    from "1.IH" [OF False this] digit_char_props [OF d] False show ?thesis
      by (simp add: show_nat.simps [of n] nat_of_digits_snoc)
  qed
qed

lemma digits_fixed_props:
  "0 \<le> n \<Longrightarrow> length (digits_fixed k n) = k \<and> list_all is_digit (digits_fixed k n) \<and>
     nat_of_digits (digits_fixed k n) = n mod 10 ^ k"
proof (induction k arbitrary: n)
  case 0
  then show ?case by (simp add: nat_of_digits_def)
next
  case (Suc k)
  from Suc.prems have d: "0 \<le> n mod 10" "n mod 10 < 10" by simp_all
  from Suc.prems have "0 \<le> n div 10" by simp
  from Suc.IH [OF this] digit_char_props [OF d]
  have len: "length (digits_fixed (Suc k) n) = Suc k"
    and dig: "list_all is_digit (digits_fixed (Suc k) n)"
    and val: "nat_of_digits (digits_fixed (Suc k) n) = (n div 10) mod 10 ^ k * 10 + n mod 10"
    by (simp_all add: nat_of_digits_snoc)
  have "(n div 10) mod 10 ^ k * 10 + n mod 10 = n mod 10 ^ Suc k"
    using zmod_zmult2_eq [of "10 ^ k" n 10] by simp
  with len dig val show ?case by simp
qed

lemma py_rstrip_snoc:
  "py_rstrip c (xs @ [d]) = (if d = c then py_rstrip c xs else xs @ [d])"
  by (simp add: py_rstrip_def)

lemma py_rstrip_Nil: "py_rstrip c [] = []"
  by (simp add: py_rstrip_def)

lemma py_rstrip_append_stop:
  "d \<noteq> c \<Longrightarrow> py_rstrip c (xs @ d # ys) = xs @ d # py_rstrip c ys"
proof (induction ys rule: rev_induct)
  case Nil
  then show ?case using py_rstrip_snoc [of c xs d] by (simp add: py_rstrip_Nil)
next
  case (snoc y ys)
  have "py_rstrip c (xs @ d # ys @ [y]) = py_rstrip c ((xs @ d # ys) @ [y])" by simp
  also have "\<dots> = (if y = c then py_rstrip c (xs @ d # ys) else (xs @ d # ys) @ [y])"
    by (rule py_rstrip_snoc)
  finally show ?case using snoc by (simp add: py_rstrip_snoc)
qed

lemma py_rstrip_last: "py_rstrip c xs \<noteq> [] \<Longrightarrow> last (py_rstrip c xs) \<noteq> c"
  by (induction xs rule: rev_induct) (auto simp: py_rstrip_snoc py_rstrip_Nil)

lemma py_rstrip_all: "list_all P xs \<Longrightarrow> list_all P (py_rstrip c xs)"
  by (induction xs rule: rev_induct) (auto simp: py_rstrip_snoc py_rstrip_Nil)

lemma py_rstrip_id: "xs \<noteq> [] \<Longrightarrow> last xs \<noteq> c \<Longrightarrow> py_rstrip c xs = xs"
  by (cases xs rule: rev_cases) (auto simp: py_rstrip_snoc)

lemma frac_val_rstrip: "frac_val (py_rstrip (CHR ''0'') ds) = frac_val ds"
proof (induction ds rule: rev_induct)
  case Nil
  then show ?case by (simp add: py_rstrip_Nil)
next
  case (snoc d ds)
  show ?case
  proof (cases "d = CHR ''0''")
    case True
    have "digit_val (CHR ''0'') = 0"
      by (simp add: digit_val_def digit_chars_def py_index_def)
    with True have "frac_val (ds @ [d]) = frac_val ds"
      by (simp add: frac_val_def nat_of_digits_snoc)
    with True snoc show ?thesis by (simp add: py_rstrip_snoc)
  next
    case False
    then show ?thesis by (simp add: py_rstrip_snoc)
  qed
qed

lemma py_round_close: "\<bar>of_int (py_round y) - y\<bar> \<le> 1 / 2"
proof -
  have "of_int \<lfloor>y\<rfloor> \<le> y" and "y < of_int \<lfloor>y\<rfloor> + 1" by linarith+
  then show ?thesis unfolding py_round_def Let_def by (auto simp: abs_le_iff)
qed

lemma py_round_nonneg: "0 \<le> y \<Longrightarrow> 0 \<le> py_round y"
proof -
  assume "0 \<le> y"
  then have "0 \<le> \<lfloor>y\<rfloor>" by simp
  then show ?thesis unfolding py_round_def Let_def by auto
qed

lemma py_strip_id:
  assumes "s \<noteq> []" and "\<not> is_space (hd s)" and "\<not> is_space (last s)"
  shows "py_strip s = s"
proof -
  from assms(1,2) have a: "dropWhile is_space s = s" by (cases s) simp_all
  from assms(1,3) have "dropWhile is_space (rev s) = rev s"
    by (cases s rule: rev_cases) simp_all
  with a show ?thesis by (simp add: py_strip_def)
qed

lemma float_strip_id:
  assumes "s \<noteq> []" and "\<not> is_float_space (hd s)" and "\<not> is_float_space (last s)"
  shows "float_strip s = s"
proof -
  from assms(1,2) have a: "dropWhile is_float_space s = s" by (cases s) simp_all
  from assms(1,3) have "dropWhile is_float_space (rev s) = rev s"
    by (cases s rule: rev_cases) simp_all
  with a show ?thesis by (simp add: float_strip_def)
qed

lemma underscores_ok_none:
  "CHR ''_'' \<notin> set s \<Longrightarrow> prev \<noteq> CHR ''_'' \<Longrightarrow> underscores_ok prev s"
  by (induction s arbitrary: prev) auto

lemma py_float_no_underscore:
  assumes "CHR ''_'' \<notin> set s"
  shows "py_float s =
     (case float_strip s of
        [] \<Rightarrow> None
      | c # cs \<Rightarrow>
          if c = CHR ''-'' then map_option uminus (parse_unsigned cs)
          else if c = CHR ''+'' then parse_unsigned cs
          else parse_unsigned (c # cs))"
proof -
  from assms have "filter (\<lambda>c. c \<noteq> CHR ''_'') s = s" by (auto simp: filter_id_conv)
  with underscores_ok_none [OF assms, of "CHR 0x00"] show ?thesis
    by (simp add: py_float_def)
qed

lemma digits_no_underscore: "list_all is_digit ds \<Longrightarrow> CHR ''_'' \<notin> set ds"
  using is_digit_not_special(8) by (auto simp: list_all_iff)

lemma digits_no_exp: "list_all is_digit ds \<Longrightarrow> \<forall>c \<in> set ds. \<not> is_exp_char c"
  by (auto simp: list_all_iff is_digit_not_special)

lemma digits_no_dot: "list_all is_digit ds \<Longrightarrow> \<forall>c \<in> set ds. c \<noteq> CHR ''.''"
  by (auto simp: list_all_iff is_digit_not_special)

lemma parse_unsigned_point:
  assumes "I \<noteq> []" and "list_all is_digit I" and "list_all is_digit F"
  shows "parse_unsigned (I @ CHR ''.'' # F) = Some (of_int (nat_of_digits I) + frac_val F)"
proof -
  let ?s = "I @ CHR ''.'' # F"
  have noexp: "\<forall>c \<in> set ?s. \<not> is_exp_char c"
    using digits_no_exp [OF assms(2)] digits_no_exp [OF assms(3)]
    by (auto simp: is_exp_char_def)
  then have m: "takeWhile (\<lambda>c. \<not> is_exp_char c) ?s = ?s"
    and r: "dropWhile (\<lambda>c. \<not> is_exp_char c) ?s = []"
    by (simp_all add: takeWhile_eq_all_conv dropWhile_eq_Nil_conv)
  have ip: "takeWhile (\<lambda>c. c \<noteq> CHR ''.'') ?s = I"
    using digits_no_dot [OF assms(2)] by (simp add: takeWhile_append2)
  have fp: "dropWhile (\<lambda>c. c \<noteq> CHR ''.'') ?s = CHR ''.'' # F"
    using digits_no_dot [OF assms(2)] by (simp add: dropWhile_append2)
  show ?thesis
    unfolding parse_unsigned_def m r ip fp Let_def using assms
    by (simp add: frac_val_def)
qed

lemma parse_unsigned_int:
  assumes "I \<noteq> []" and "list_all is_digit I"
  shows "parse_unsigned I = Some (of_int (nat_of_digits I))"
proof -
  have m: "takeWhile (\<lambda>c. \<not> is_exp_char c) I = I"
    and r: "dropWhile (\<lambda>c. \<not> is_exp_char c) I = []"
    using digits_no_exp [OF assms(2)]
    by (simp_all add: takeWhile_eq_all_conv dropWhile_eq_Nil_conv)
  have ip: "takeWhile (\<lambda>c. c \<noteq> CHR ''.'') I = I"
    and fp: "dropWhile (\<lambda>c. c \<noteq> CHR ''.'') I = []"
    using digits_no_dot [OF assms(2)]
    by (simp_all add: takeWhile_eq_all_conv dropWhile_eq_Nil_conv)
  show ?thesis
    unfolding parse_unsigned_def m r ip fp Let_def using assms
    by (simp add: nat_of_digits_def)
qed

lemma parse_unsigned_exp:
  assumes "I \<noteq> []" and "list_all is_digit I" and "list_all is_digit F"
    and "E \<noteq> []" and "list_all is_digit E"
  shows "parse_unsigned (I @ CHR ''.'' # F @ CHR ''e'' # CHR ''-'' # E) =
     Some ((of_int (nat_of_digits I) + frac_val F) * 10 powi (- nat_of_digits E))"
proof -
  let ?m = "I @ CHR ''.'' # F"
  let ?s = "?m @ CHR ''e'' # CHR ''-'' # E"
  have noexp: "\<forall>c \<in> set ?m. \<not> is_exp_char c"
    using digits_no_exp [OF assms(2)] digits_no_exp [OF assms(3)]
    by (auto simp: is_exp_char_def)
  then have m: "takeWhile (\<lambda>c. \<not> is_exp_char c) ?s = ?m"
    by (simp add: takeWhile_append2 is_exp_char_def)
  from noexp have r: "dropWhile (\<lambda>c. \<not> is_exp_char c) ?s = CHR ''e'' # CHR ''-'' # E"
    by (simp add: dropWhile_append2 is_exp_char_def)
  have ip: "takeWhile (\<lambda>c. c \<noteq> CHR ''.'') ?m = I"
    using digits_no_dot [OF assms(2)] by (simp add: takeWhile_append2)
  have fp: "dropWhile (\<lambda>c. c \<noteq> CHR ''.'') ?m = CHR ''.'' # F"
    using digits_no_dot [OF assms(2)] by (simp add: dropWhile_append2)
  have ex: "parse_exponent (CHR ''-'' # E) = Some (- nat_of_digits E)"
    using assms(4,5) by (simp add: parse_exponent_def parse_digits_def)
  have s: "I @ CHR ''.'' # F @ CHR ''e'' # CHR ''-'' # E = ?s" by simp
  show ?thesis
    unfolding s parse_unsigned_def m r ip fp Let_def using assms ex
    by (simp add: frac_val_def)
qed

lemma int_split_real:
  "of_int (n div 10 ^ k) + of_int (n mod 10 ^ k) / 10 ^ k = (of_int n / 10 ^ k :: real)"
proof -
  have "of_int (10 ^ k * (n div 10 ^ k) + n mod 10 ^ k) = (of_int n :: real)"
    by (simp only: mult_div_mod_eq)
  then have "10 ^ k * of_int (n div 10 ^ k) + of_int (n mod 10 ^ k) = (of_int n :: real)"
    by (simp only: of_int_add of_int_mult of_int_power of_int_numeral)
  then show ?thesis by (simp add: field_simps)
qed

lemma fixed6_text_shape:
  fixes x :: real
  defines "n \<equiv> py_round (\<bar>x\<bar> * 10 ^ 6)"
  defines "I \<equiv> show_nat (n div 10 ^ 6)"
  defines "F \<equiv> py_rstrip (CHR ''0'') (digits_fixed 6 (n mod 10 ^ 6))"
  shows "fixed6_text x = (if x < 0 then ''-'' else []) @ I @ (if F = [] then [] else CHR ''.'' # F)"
    and "I \<noteq> []" and "list_all is_digit I" and "list_all is_digit F"
    and "of_int (nat_of_digits I) + frac_val F = (of_int n / 10 ^ 6 :: real)"
proof -
  have n0: "0 \<le> n" unfolding n_def by (rule py_round_nonneg) simp
  then have ip0: "0 \<le> n div 10 ^ 6" and fp0: "0 \<le> n mod 10 ^ 6" by simp_all
  from show_nat_props [OF ip0] show I: "I \<noteq> []" and dI: "list_all is_digit I"
    by (simp_all add: I_def)
  from show_nat_props [OF ip0] have valI: "nat_of_digits I = n div 10 ^ 6" by (simp add: I_def)
  let ?F0 = "digits_fixed 6 (n mod 10 ^ 6)"
  from digits_fixed_props [OF fp0, of 6] have lenF: "length ?F0 = 6"
    and dF0: "list_all is_digit ?F0" and valF: "nat_of_digits ?F0 = n mod 10 ^ 6"
    by simp_all
  from dF0 show dF: "list_all is_digit F" unfolding F_def by (rule py_rstrip_all)
  have "frac_val F = frac_val ?F0" unfolding F_def by (rule frac_val_rstrip)
  also have "\<dots> = of_int (n mod 10 ^ 6) / 10 ^ 6" by (simp only: frac_val_def lenF valF)
  finally show "of_int (nat_of_digits I) + frac_val F = (of_int n / 10 ^ 6 :: real)"
    using int_split_real [of n 6] by (simp add: valI)
  let ?sg = "if x < 0 then ''-'' else []"
  have f: "fmt_fixed6 x = (?sg @ I) @ CHR ''.'' # ?F0"
    by (simp add: fmt_fixed6_def Let_def n_def I_def)
  have s1: "py_rstrip (CHR ''0'') (fmt_fixed6 x) = (?sg @ I) @ CHR ''.'' # F"
    unfolding f F_def by (rule py_rstrip_append_stop) simp
  from I dI have lastI: "last (?sg @ I) \<noteq> CHR ''.''" and ne: "?sg @ I \<noteq> []"
    using is_digit_not_special(1) [of "last I"] by (auto simp: list_all_iff)
  show "fixed6_text x = ?sg @ I @ (if F = [] then [] else CHR ''.'' # F)"
  proof (cases "F = []")
    case True
    then have "py_rstrip (CHR ''.'') ((?sg @ I) @ CHR ''.'' # F) = py_rstrip (CHR ''.'') (?sg @ I)"
      using py_rstrip_snoc [of "CHR ''.''" "?sg @ I" "CHR ''.''"] by simp
    also have "\<dots> = ?sg @ I" using ne lastI by (rule py_rstrip_id)
    finally show ?thesis unfolding fixed6_text_def s1 using True by simp
  next
    case False
    with dF have "last F \<noteq> CHR ''.''"
      using is_digit_not_special(1) [of "last F"] by (auto simp: list_all_iff)
    with False have "last ((?sg @ I) @ CHR ''.'' # F) \<noteq> CHR ''.''" by simp
    then have "py_rstrip (CHR ''.'') ((?sg @ I) @ CHR ''.'' # F) = (?sg @ I) @ CHR ''.'' # F"
      by (intro py_rstrip_id) simp_all
    then show ?thesis unfolding fixed6_text_def s1 using False by simp
  qed
qed

lemma fixed6_text_shape_ex:
  "\<exists>I F. fixed6_text x =
       (if x < 0 then ''-'' else []) @ I @ (if F = [] then [] else CHR ''.'' # F) \<and>
     I \<noteq> [] \<and> list_all is_digit I \<and> list_all is_digit F \<and>
     of_int (nat_of_digits I) + frac_val F = (of_int (py_round (\<bar>x\<bar> * 10 ^ 6)) / 10 ^ 6 :: real)"
  using fixed6_text_shape [of x] by blast

lemma py_float_unsigned:
  assumes "T \<noteq> []" and "is_digit (hd T)" and "is_digit (last T)" and "CHR ''_'' \<notin> set T"
  shows "py_float T = parse_unsigned T"
proof -
  from assms is_digit_not_special [of "hd T"] is_digit_not_special [of "last T"]
  have "float_strip T = T" by (intro float_strip_id) simp_all
  moreover obtain c cs where T: "T = c # cs" using assms(1) by (cases T) auto
  moreover from assms(2) T have "c \<noteq> CHR ''-''" and "c \<noteq> CHR ''+''"
    using is_digit_not_special [of c] by simp_all
  ultimately show ?thesis using py_float_no_underscore [OF assms(4)] by simp
qed

lemma py_float_negative:
  assumes "T \<noteq> []" and "is_digit (last T)" and "CHR ''_'' \<notin> set T"
  shows "py_float (CHR ''-'' # T) = map_option uminus (parse_unsigned T)"
proof -
  from assms is_digit_not_special [of "last T"]
  have "float_strip (CHR ''-'' # T) = CHR ''-'' # T"
    by (intro float_strip_id) (simp_all add: is_float_space_def)
  moreover from assms(3) have "CHR ''_'' \<notin> set (CHR ''-'' # T)" by simp
  ultimately show ?thesis by (simp add: py_float_no_underscore)
qed

lemma fixed6_text_parse:
  fixes x :: real
  shows "py_float (fixed6_text x) = Some (fixed6_value x)"
    and "fixed6_text x \<noteq> []"
    and "is_digit (last (fixed6_text x))"
    and "\<not> is_space (hd (fixed6_text x))"
proof -
  define n where "n = py_round (\<bar>x\<bar> * 10 ^ 6)"
  from fixed6_text_shape_ex [of x] obtain I F where
    "fixed6_text x = (if x < 0 then ''-'' else []) @ I @ (if F = [] then [] else CHR ''.'' # F)"
    and "I \<noteq> []" and "list_all is_digit I" and "list_all is_digit F"
    and "of_int (nat_of_digits I) + frac_val F = (of_int n / 10 ^ 6 :: real)"
    unfolding n_def by blast
  note shape = this
  define T where "T = I @ (if F = [] then [] else CHR ''.'' # F)"
  from shape(1) have tx: "fixed6_text x = (if x < 0 then ''-'' else []) @ T"
    by (simp add: T_def)
  from shape(2,3) have hdI: "is_digit (hd I)" by (cases I) simp_all
  from shape(2) hdI have ne: "T \<noteq> []" and hdT: "is_digit (hd T)" by (simp_all add: T_def)
  have lastT: "is_digit (last T)"
  proof (cases "F = []")
    case True
    with shape(2,3) show ?thesis by (cases I rule: rev_cases) (simp_all add: T_def)
  next
    case False
    with shape(4) show ?thesis by (cases F rule: rev_cases) (simp_all add: T_def)
  qed
  have nu: "CHR ''_'' \<notin> set T"
    using digits_no_underscore [OF shape(3)] digits_no_underscore [OF shape(4)]
    by (simp add: T_def)
  have val: "parse_unsigned T = Some (of_int n / 10 ^ 6)"
  proof (cases "F = []")
    case True
    with shape(5) have "of_int (nat_of_digits I) = (of_int n / 10 ^ 6 :: real)"
      by (simp add: frac_val_def nat_of_digits_def)
    with True parse_unsigned_int [OF shape(2,3)] show ?thesis by (simp add: T_def)
  next
    case False
    with parse_unsigned_point [OF shape(2,3,4)] shape(5) show ?thesis by (simp add: T_def)
  qed
  show "py_float (fixed6_text x) = Some (fixed6_value x)"
  proof (cases "x < 0")
    case True
    with py_float_negative [OF ne lastT nu] val show ?thesis
      by (simp add: tx fixed6_value_def n_def)
  next
    case False
    with py_float_unsigned [OF ne hdT lastT nu] val show ?thesis
      by (simp add: tx fixed6_value_def n_def)
  qed
  from ne show "fixed6_text x \<noteq> []" by (simp add: tx)
  from ne lastT show "is_digit (last (fixed6_text x))" by (simp add: tx)
  from ne hdT is_digit_not_special(5) [of "hd T"] show "\<not> is_space (hd (fixed6_text x))"
    by (simp add: tx is_space_def)
qed

lemma fixed6_value_close: "\<bar>fixed6_value x - x\<bar> \<le> (1 / 2) / 10 ^ 6"
proof -
  let ?n = "py_round (\<bar>x\<bar> * 10 ^ 6)"
  have "\<bar>of_int ?n - \<bar>x\<bar> * 10 ^ 6\<bar> \<le> 1 / 2" by (rule py_round_close)
  then have "\<bar>(of_int ?n - \<bar>x\<bar> * 10 ^ 6) / 10 ^ 6\<bar> \<le> (1 / 2) / 10 ^ 6"
    by (simp only: abs_divide) (simp add: divide_right_mono)
  then have a: "\<bar>of_int ?n / 10 ^ 6 - \<bar>x\<bar>\<bar> \<le> (1 / 2) / 10 ^ 6"
    by (simp add: diff_divide_distrib)
  show ?thesis
  proof (cases "x < 0")
    case True
    then have "fixed6_value x - x = - (of_int ?n / 10 ^ 6 - \<bar>x\<bar>)"
      by (simp add: fixed6_value_def)
    with a show ?thesis by (simp only: abs_minus_cancel)
  next
    case False
    then have "fixed6_value x - x = of_int ?n / 10 ^ 6 - \<bar>x\<bar>"
      by (simp add: fixed6_value_def)
    with a show ?thesis by simp
  qed
qed

lemma suffix_single: "suffix [a] (xs @ [b]) \<longleftrightarrow> a = b"
  by (auto simp: suffix_def)

lemma suffix_single_last: "xs \<noteq> [] \<Longrightarrow> suffix [a] xs \<longleftrightarrow> last xs = a"
  by (cases xs rule: rev_cases) (auto simp: suffix_single)

lemma parse_with_prefix:
  assumes "body \<noteq> []" and "is_digit (last body)" and "\<not> is_space (hd body)"
    and "(pfx, factor) \<in> set PREFIX_TO_VALUE"
  shows "parse_engineering_format (body @ pfx) = map_option (\<lambda>x. x * factor) (py_float body)"
proof (cases "pfx = []")
  case True
  with assms(4) have factor: "factor = 1" by (auto simp: PREFIX_TO_VALUE_def)
  from assms is_digit_not_special(5) [of "last body"] have strip: "py_strip body = body"
    by (intro py_strip_id) simp_all
  from assms(2) is_digit_not_special(6) [of "last body"]
  have "find (\<lambda>(pfx, factor). pfx \<noteq> [] \<and> suffix pfx body) PREFIX_TO_VALUE = None"
    using assms(1) by (auto simp: PREFIX_TO_VALUE_def suffix_single_last)
  with True factor strip assms(1) show ?thesis
    by (simp add: parse_engineering_format_def Let_def option.map_ident)
next
  case False
  with assms(4) obtain c where pfx: "pfx = [c]" and c: "c \<in> set ''pnumkMG''"
    by (auto simp: PREFIX_TO_VALUE_def)
  from c have "\<not> is_space c" by (auto simp: is_space_def)
  with assms(1,3) have strip: "py_strip (body @ [c]) = body @ [c]"
    by (intro py_strip_id) simp_all
  from assms(4) pfx
  have "find (\<lambda>(pfx, factor). pfx \<noteq> [] \<and> suffix pfx (body @ [c])) PREFIX_TO_VALUE =
      Some ([c], factor)"
    by (auto simp: PREFIX_TO_VALUE_def suffix_single)
  with strip pfx show ?thesis
    by (simp add: parse_engineering_format_def Let_def)
qed

lemma prefix_tables_agree:
  "(expo, pfx) \<in> set ENGINEERING_PREFIXES_sorted \<Longrightarrow> (pfx, expo) \<in> set PREFIX_TO_VALUE"
  by (auto simp: ENGINEERING_PREFIXES_sorted_def PREFIX_TO_VALUE_def)

lemma prefixes_positive:
  "(expo, pfx) \<in> set ENGINEERING_PREFIXES_sorted \<Longrightarrow> 0 < expo"
  by (auto simp: ENGINEERING_PREFIXES_sorted_def)

lemmas fixed6_text_nonempty = fixed6_text_parse(2)
lemmas fixed6_text_last = fixed6_text_parse(3)
lemmas fixed6_text_hd = fixed6_text_parse(4)

lemma engineering_format_prefixed:
  assumes "find (\<lambda>(expo, pfx). expo \<le> \<bar>v\<bar>) ENGINEERING_PREFIXES_sorted = Some (expo, pfx)"
  shows "parse_engineering_format (fixed6_text (v / expo) @ pfx) =
      Some (fixed6_value (v / expo) * expo)"
    and "\<bar>fixed6_value (v / expo) * expo - v\<bar> \<le> 5 / 10 ^ 7 * \<bar>v\<bar>"
proof -
  from assms have mem: "(expo, pfx) \<in> set ENGINEERING_PREFIXES_sorted" and le: "expo \<le> \<bar>v\<bar>"
    by (auto simp: find_Some_iff in_set_conv_nth)
  from prefixes_positive [OF mem] have pos: "0 < expo" .
  from parse_with_prefix [OF fixed6_text_nonempty fixed6_text_last fixed6_text_hd
      prefix_tables_agree [OF mem], of "v / expo"]
  show "parse_engineering_format (fixed6_text (v / expo) @ pfx) =
      Some (fixed6_value (v / expo) * expo)"
    by (simp add: fixed6_text_parse(1))
  have "fixed6_value (v / expo) * expo - v = (fixed6_value (v / expo) - v / expo) * expo"
    using pos by (simp add: algebra_simps)
  then have "\<bar>fixed6_value (v / expo) * expo - v\<bar> = \<bar>fixed6_value (v / expo) - v / expo\<bar> * expo"
    using pos by (simp add: abs_mult)
  also have "\<dots> \<le> (1 / 2) / 10 ^ 6 * expo"
    using fixed6_value_close [of "v / expo"] pos by (intro mult_right_mono) simp_all
  also have "\<dots> \<le> (1 / 2) / 10 ^ 6 * \<bar>v\<bar>"
    using le by (intro mult_left_mono) simp_all
  finally show "\<bar>fixed6_value (v / expo) * expo - v\<bar> \<le> 5 / 10 ^ 7 * \<bar>v\<bar>" by simp
qed

lemma decimal_exponent_bounds:
  "0 < x \<Longrightarrow> 10 powi decimal_exponent x \<le> x \<and> x < 10 powi (decimal_exponent x + 1)"
proof (induction x rule: decimal_exponent.induct)
  case (1 x)
  show ?case
  proof (cases "x < 1")
    case True
    with "1.prems" have e: "decimal_exponent x = decimal_exponent (x * 10) - 1"
      by (simp add: decimal_exponent.simps [of x])
    from "1.prems" True "1.IH"(1)
    have ih: "10 powi decimal_exponent (x * 10) \<le> x * 10"
      "x * 10 < 10 powi (decimal_exponent (x * 10) + 1)"
      by simp_all
    have a: "(10 :: real) powi (decimal_exponent (x * 10) - 1) =
        10 powi decimal_exponent (x * 10) / 10"
      by (simp add: power_int_diff)
    have b: "(10 :: real) powi (decimal_exponent (x * 10) + 1) =
        10 powi decimal_exponent (x * 10) * 10"
      by (simp add: power_int_add)
    from ih show ?thesis unfolding e a b by simp
  next
    case False
    show ?thesis
    proof (cases "10 \<le> x")
      case True
      with "1.prems" False have e: "decimal_exponent x = decimal_exponent (x / 10) + 1"
        by (simp add: decimal_exponent.simps [of x])
      from "1.prems" False True "1.IH"(2)
      have ih: "10 powi decimal_exponent (x / 10) \<le> x / 10"
        "x / 10 < 10 powi (decimal_exponent (x / 10) + 1)"
        by simp_all
      have a: "(10 :: real) powi (decimal_exponent (x / 10) + 1) =
          10 powi decimal_exponent (x / 10) * 10"
        by (simp add: power_int_add)
      have b: "(10 :: real) powi (decimal_exponent (x / 10) + 1 + 1) =
          10 powi decimal_exponent (x / 10) * 10 * 10"
        by (simp add: power_int_add)
      from ih show ?thesis unfolding e b unfolding a by simp
    next
      case False
      with \<open>\<not> x < 1\<close> "1.prems" have "decimal_exponent x = 0"
        by (simp add: decimal_exponent.simps [of x])
      with False \<open>\<not> x < 1\<close> show ?thesis by simp
    qed
  qed
qed

lemma fmt_sci3_unfold:
  "fmt_sci3 x =
     (let e = decimal_exponent \<bar>x\<bar>; m = py_round (\<bar>x\<bar> / 10 powi e * 10 ^ 3)
      in if m = 10 ^ 4 then sci_text (x < 0) (10 ^ 3) (e + 1) else sci_text (x < 0) m e)"
  by (simp add: fmt_sci3_def sci_text_def Let_def)

lemma sci_text_parse:
  assumes "0 \<le> m" and "e \<le> - 10"
  shows "parse_engineering_format (sci_text neg m e) =
     Some ((if neg then - 1 else 1) * (of_int m / 10 ^ 3 * 10 powi e))"
proof -
  define I where "I = show_nat (m div 10 ^ 3)"
  define F where "F = digits_fixed 3 (m mod 10 ^ 3)"
  define E where "E = show_nat \<bar>e\<bar>"
  define T where "T = I @ CHR ''.'' # F @ CHR ''e'' # CHR ''-'' # E"
  from assms(1) have ip0: "0 \<le> m div 10 ^ 3" and fp0: "0 \<le> m mod 10 ^ 3" by simp_all
  from show_nat_props [OF ip0] have I: "I \<noteq> []" and dI: "list_all is_digit I"
    and vI: "nat_of_digits I = m div 10 ^ 3"
    by (simp_all add: I_def)
  from digits_fixed_props [OF fp0, of 3] have lenF: "length F = 3"
    and dF: "list_all is_digit F" and vF: "nat_of_digits F = m mod 10 ^ 3"
    by (simp_all add: F_def)
  have "0 \<le> \<bar>e\<bar>" by simp
  from show_nat_props [OF this] have E: "E \<noteq> []" and dE: "list_all is_digit E"
    and vE: "nat_of_digits E = \<bar>e\<bar>"
    by (simp_all add: E_def)
  have tx: "sci_text neg m e = (if neg then ''-'' else []) @ T"
    using assms(2) by (simp add: sci_text_def T_def I_def F_def E_def)
  have "frac_val F = of_int (m mod 10 ^ 3) / 10 ^ 3" by (simp only: frac_val_def lenF vF)
  with int_split_real [of m 3] vI
  have mant: "of_int (nat_of_digits I) + frac_val F = (of_int m / 10 ^ 3 :: real)" by simp
  from assms(2) vE have ex: "- nat_of_digits E = e" by simp
  from parse_unsigned_exp [OF I dI dF E dE]
  have val: "parse_unsigned T = Some (of_int m / 10 ^ 3 * 10 powi e)"
    unfolding T_def mant ex .
  from I dI have hdT: "is_digit (hd T)" by (cases I) (simp_all add: T_def)
  from E dE have lastT: "is_digit (last T)" by (cases E rule: rev_cases) (simp_all add: T_def)
  have ne: "T \<noteq> []" by (simp add: T_def I)
  have nu: "CHR ''_'' \<notin> set T"
    using digits_no_underscore [OF dI] digits_no_underscore [OF dF] digits_no_underscore [OF dE]
    by (simp add: T_def)
  have fl: "py_float (sci_text neg m e) =
      Some ((if neg then - 1 else 1) * (of_int m / 10 ^ 3 * 10 powi e))"
  proof (cases neg)
    case True
    show ?thesis unfolding tx using True py_float_negative [OF ne lastT nu] val by simp
  next
    case False
    show ?thesis unfolding tx using False py_float_unsigned [OF ne hdT lastT nu] val by simp
  qed
  have a: "sci_text neg m e \<noteq> []" using ne by (simp add: tx)
  have b: "is_digit (last (sci_text neg m e))" using ne lastT by (simp add: tx)
  have c: "\<not> is_space (hd (sci_text neg m e))"
    using ne hdT is_digit_not_special(5) [of "hd T"] by (simp add: tx is_space_def)
  have "([], 1) \<in> set PREFIX_TO_VALUE" by (simp add: PREFIX_TO_VALUE_def)
  from parse_with_prefix [OF a b c this] fl show ?thesis by simp
qed

lemma fmt_sci3_parse:
  assumes "x \<noteq> 0" and "\<bar>x\<bar> < 1 / 10 ^ 12"
  shows "\<exists>v'. parse_engineering_format (fmt_sci3 x) = Some v' \<and>
           \<bar>v' - x\<bar> \<le> 5 / 10 ^ 4 * \<bar>x\<bar>"
proof -
  define a where "a = \<bar>x\<bar>"
  define e0 where "e0 = decimal_exponent a"
  define p where "p = (10 :: real) powi e0"
  define y where "y = a / p"
  define m0 where "m0 = py_round (y * 10 ^ 3)"
  from assms(1) have a0: "0 < a" by (simp add: a_def)
  from decimal_exponent_bounds [OF a0] have lo: "p \<le> a" and hi: "a < 10 powi (e0 + 1)"
    by (simp_all add: p_def e0_def)
  have p0: "0 < p" by (simp add: p_def)
  have hi': "a < p * 10" using hi by (simp add: p_def power_int_add)
  have e0: "e0 \<le> - 13"
  proof (rule ccontr)
    assume "\<not> e0 \<le> - 13"
    then have "- 12 \<le> e0" by simp
    then have "(10 :: real) powi (- 12) \<le> 10 powi e0" by (intro power_int_increasing) simp_all
    moreover have "(10 :: real) powi (- 12) = 1 / 10 ^ 12" by (simp add: power_int_minus field_simps)
    ultimately show False using lo assms(2) by (simp add: p_def a_def)
  qed
  from lo p0 have y1: "1 \<le> y" by (simp add: y_def pos_le_divide_eq)
  from hi' p0 have y10: "y < 10" by (simp add: y_def pos_divide_less_eq mult.commute)
  have close: "\<bar>of_int m0 - y * 1000\<bar> \<le> 1 / 2"
    using py_round_close [of "y * 10 ^ 3"] by (simp add: m0_def)
  from close y1 have "999 < (of_int m0 :: real)" by linarith
  then have m_lo: "1000 \<le> m0" by linarith
  from close y10 have "(of_int m0 :: real) < 10001" by linarith
  then have m_hi: "m0 \<le> 10000" by linarith
  define v where "v = (if x < 0 then - 1 else 1) * (of_int m0 / 10 ^ 3 * p)"
  have parse: "parse_engineering_format (fmt_sci3 x) = Some v"
  proof (cases "m0 = 10 ^ 4")
    case True
    then have "fmt_sci3 x = sci_text (x < 0) (10 ^ 3) (e0 + 1)"
      by (simp add: fmt_sci3_unfold Let_def m0_def y_def p_def e0_def a_def)
    moreover from e0 have "e0 + 1 \<le> - 10" by simp
    moreover have "(of_int (10 ^ 3) / 10 ^ 3 * 10 powi (e0 + 1) :: real) = of_int m0 / 10 ^ 3 * p"
      using True by (simp add: p_def power_int_add)
    ultimately show ?thesis
      using sci_text_parse [of "10 ^ 3" "e0 + 1" "x < 0"] by (simp only: v_def) simp
  next
    case False
    then have "fmt_sci3 x = sci_text (x < 0) m0 e0"
      by (simp add: fmt_sci3_unfold Let_def m0_def y_def p_def e0_def a_def)
    moreover from e0 have "e0 \<le> - 10" by simp
    moreover from m_lo have "0 \<le> m0" by simp
    ultimately show ?thesis
      using sci_text_parse [of m0 e0 "x < 0"] by (simp add: v_def p_def)
  qed
  have eq: "of_int m0 / 10 ^ 3 * p - a = (of_int m0 - y * 1000) * (p / 10 ^ 3)"
    using p0 by (simp add: y_def field_simps)
  have q: "0 \<le> p / 10 ^ 3" using p0 by simp
  have "\<bar>of_int m0 / 10 ^ 3 * p - a\<bar> = \<bar>of_int m0 - y * 1000\<bar> * (p / 10 ^ 3)"
    unfolding eq abs_mult using q by (simp only: abs_of_nonneg)
  also have "\<dots> \<le> 1 / 2 * (p / 10 ^ 3)"
    using close p0 by (intro mult_right_mono) simp_all
  also have "\<dots> \<le> 1 / 2 * (a / 10 ^ 3)"
    using lo by simp
  finally have err: "\<bar>of_int m0 / 10 ^ 3 * p - a\<bar> \<le> 5 / 10 ^ 4 * a" by simp
  have "\<bar>v - x\<bar> = \<bar>of_int m0 / 10 ^ 3 * p - a\<bar>"
  proof (cases "x < 0")
    case True
    then have "v - x = - (of_int m0 / 10 ^ 3 * p - a)" by (simp add: v_def a_def)
    then show ?thesis by (simp only: abs_minus_cancel)
  next
    case False
    then have "v - x = of_int m0 / 10 ^ 3 * p - a" by (simp add: v_def a_def)
    then show ?thesis by simp
  qed
  with err parse show ?thesis by (auto simp: a_def)
qed

lemma prefixes_at_least:
  "(expo, pfx) \<in> set ENGINEERING_PREFIXES_sorted \<Longrightarrow> 1 / 10 ^ 12 \<le> expo"
  by (auto simp: ENGINEERING_PREFIXES_sorted_def)

lemma parse_zero: "parse_engineering_format ''0'' = Some 0"
  by code_simp

text \<open>
  Claim C3, as the code has it. For every value \<open>v\<close> the text that
  \<open>engineering_format\<close> produces is parsed back by \<open>parse_engineering_format\<close>. When
  \<open>|v| \<ge> 1e-12\<close> the value is printed with six fractional digits in units of the
  chosen prefix, and the result differs from \<open>v\<close> by at most \<open>5e-7 \<times> |v|\<close>. When
  \<open>|v| < 1e-12\<close> no prefix applies and the value is printed in scientific notation
  with three fractional digits, and the result differs from \<open>v\<close> by at most
  \<open>5e-4 \<times> |v|\<close>. \<open>format(0.5004) = "500.4m"\<close>, \<open>format(1e-13) = "1.000e-13"\<close> and
  \<open>format(0) = "0"\<close>.
\<close>

theorem codec_round_trip:
  "(\<exists>v'. parse_engineering_format (engineering_format v) = Some v' \<and>
      (1 / 10 ^ 12 \<le> \<bar>v\<bar> \<longrightarrow> \<bar>v' - v\<bar> \<le> 5 / 10 ^ 7 * \<bar>v\<bar>) \<and>
      (\<bar>v\<bar> < 1 / 10 ^ 12 \<longrightarrow> \<bar>v' - v\<bar> \<le> 5 / 10 ^ 4 * \<bar>v\<bar>)) \<and>
   engineering_format (5004 / 10000) = ''500.4m'' \<and>
   engineering_format (1 / 10 ^ 13) = ''1.000e-13'' \<and>
   engineering_format 0 = ''0''"
proof (intro conjI)
  show "\<exists>v'. parse_engineering_format (engineering_format v) = Some v' \<and>
      (1 / 10 ^ 12 \<le> \<bar>v\<bar> \<longrightarrow> \<bar>v' - v\<bar> \<le> 5 / 10 ^ 7 * \<bar>v\<bar>) \<and>
      (\<bar>v\<bar> < 1 / 10 ^ 12 \<longrightarrow> \<bar>v' - v\<bar> \<le> 5 / 10 ^ 4 * \<bar>v\<bar>)"
  proof (cases "v = 0")
    case True
    then show ?thesis by (simp add: engineering_format_def parse_zero)
  next
    case False
    show ?thesis
    proof (cases "find (\<lambda>(expo, pfx). expo \<le> \<bar>v\<bar>) ENGINEERING_PREFIXES_sorted")
      case None
      then have "\<not> (\<exists>x. x \<in> set ENGINEERING_PREFIXES_sorted \<and>
          (case x of (expo, pfx) \<Rightarrow> expo \<le> \<bar>v\<bar>))"
        by (rule find_None_iff [THEN iffD1])
      moreover have "(1 / 10 ^ 12, ''p'') \<in> set ENGINEERING_PREFIXES_sorted"
        by (simp add: ENGINEERING_PREFIXES_sorted_def)
      ultimately have "\<not> 1 / 10 ^ 12 \<le> \<bar>v\<bar>" by blast
      then have small: "\<bar>v\<bar> < 1 / 10 ^ 12" by simp
      from None False have "engineering_format v = fmt_sci3 v"
        by (simp add: engineering_format_def)
      with fmt_sci3_parse [OF False small] small show ?thesis by auto
    next
      case (Some a)
      obtain expo pfx where a: "a = (expo, pfx)" by (cases a)
      from Some a have "(expo, pfx) \<in> set ENGINEERING_PREFIXES_sorted" and "expo \<le> \<bar>v\<bar>"
        by (auto simp: find_Some_iff in_set_conv_nth)
      with prefixes_at_least [of expo pfx] have big: "1 / 10 ^ 12 \<le> \<bar>v\<bar>" by simp
      from Some a False have "engineering_format v = fixed6_text (v / expo) @ pfx"
        by (simp add: engineering_format_def fixed6_text_def)
      with engineering_format_prefixed [of v expo pfx] Some a big show ?thesis by auto
    qed
  qed
  show "engineering_format (5004 / 10000) = ''500.4m''" by code_simp
  show "engineering_format (1 / 10 ^ 13) = ''1.000e-13''" by code_simp
  show "engineering_format 0 = ''0''" by code_simp
qed

theorem codec_round_trip_witness:
  "(\<exists>v'. parse_engineering_format ''500.4m'' = Some v' \<and>
      \<bar>v' - 5004 / 10000\<bar> \<le> 5 / 10 ^ 7 * \<bar>5004 / 10000 :: real\<bar>) \<and>
   (\<exists>v'. parse_engineering_format ''1.000e-13'' = Some v' \<and>
      \<bar>v' - 1 / 10 ^ 13\<bar> \<le> 5 / 10 ^ 4 * \<bar>1 / 10 ^ 13 :: real\<bar>)"
proof -
  have a: "1 / 10 ^ 12 \<le> \<bar>5004 / 10000 :: real\<bar>" by simp
  have b: "\<bar>1 / 10 ^ 13 :: real\<bar> < 1 / 10 ^ 12" by simp
  from codec_round_trip [of "5004 / 10000"] a
  have c: "\<exists>v'. parse_engineering_format ''500.4m'' = Some v' \<and>
      \<bar>v' - 5004 / 10000\<bar> \<le> 5 / 10 ^ 7 * \<bar>5004 / 10000 :: real\<bar>"
    by metis
  from codec_round_trip [of "1 / 10 ^ 13"] b
  have d: "\<exists>v'. parse_engineering_format ''1.000e-13'' = Some v' \<and>
      \<bar>v' - 1 / 10 ^ 13\<bar> \<le> 5 / 10 ^ 4 * \<bar>1 / 10 ^ 13 :: real\<bar>"
    by metis
  from c d show ?thesis by blast
qed

text \<open>
  Six-digit precision does not hold for every value. \<open>1.2345e-13\<close> is printed as
  \<open>1.234e-13\<close>: the error is more than a millionth of the value. \<open>1e9 + 400\<close> is
  printed as \<open>1G\<close>: the error, 400, is more than \<open>1e-6\<close>.
\<close>

theorem codec_round_trip_counterexample:
  "engineering_format (12345 / 10 ^ 17) = ''1.234e-13'' \<and>
   parse_engineering_format ''1.234e-13'' = Some (1234 / 10 ^ 16) \<and>
   \<not> \<bar>1234 / 10 ^ 16 - 12345 / 10 ^ 17\<bar> \<le> 1 / 10 ^ 6 * \<bar>12345 / 10 ^ 17 :: real\<bar> \<and>
   engineering_format (10 ^ 9 + 400) = ''1G'' \<and>
   parse_engineering_format ''1G'' = Some (10 ^ 9) \<and>
   \<not> \<bar>10 ^ 9 - (10 ^ 9 + 400)\<bar> \<le> (1 / 10 ^ 6 :: real)"
proof (intro conjI)
  show "engineering_format (12345 / 10 ^ 17) = ''1.234e-13''" by code_simp
  show "parse_engineering_format ''1.234e-13'' = Some (1234 / 10 ^ 16)" by code_simp
  show "engineering_format (10 ^ 9 + 400) = ''1G''" by code_simp
  show "parse_engineering_format ''1G'' = Some (10 ^ 9)" by code_simp
qed simp_all

end
